(* ===== verification/Prelude.thy ===== *)
theory Prelude
  imports Main "HOL-Library.Word" "HOL-Library.Monad_Syntax" "HOL-Library.Sublist"
begin

text \<open>
  What every component of the daemon shares: the machine integer types, the parts of the
  Rust standard library the sources call (decimal formatting, paths, string slicing into
  lines, UTF-8 validity, instants and durations), the collections of facts the component
  proofs use, and generic lemmas on lists, options and words.

  A Rust \<open>String\<close> or \<open>PathBuf\<close> is the list of its UTF-8 bytes (a HOL \<open>char\<close> is one byte).
  An \<open>Instant\<close> is a number of nanoseconds on the monotonic clock.
\<close>

section \<open>Types\<close>

type_synonym u16 = "16 word"
type_synonym u32 = "32 word"
type_synonym u64 = "64 word"

text \<open>A process id is the 32-bit value of \<open>Child::id()\<close>; \<open>Pid\<close> reads it as signed.\<close>

type_synonym pid = "32 word"
type_synonym path = string

text \<open>Nanoseconds of the monotonic clock (\<open>std::time::Instant\<close>).\<close>

type_synonym instant = nat

section \<open>Fact collections\<close>

named_theorems std_defs "definitions of the modelled standard library"
named_theorems env_simps "what the system-call wrappers do to each field of the environment"

section \<open>Generic lemmas\<close>

lemma bind_SomeE:
  assumes "Option.bind m f = Some r"
  obtains x where "m = Some x" and "f x = Some r"
  using assms by (cases m) auto

lemma unat_Suc32: "unat (w + 1 :: u32) = (if unat w = 2 ^ 32 - 1 then 0 else unat w + 1)"
proof (cases "unat w = 2 ^ 32 - 1")
  case True
  then have "w = - 1" by (simp add: unsigned_minus_1_eq_mask mask_eq_exp_minus_1 word_unat_eq_iff)
  then show ?thesis using True by simp
next
  case False
  have "unat w < 2 ^ 32" using unsigned_less [of w] by simp
  with False show ?thesis by (simp add: unat_word_ariths)
qed

section \<open>Decimal formatting of unsigned integers\<close>

definition digit_char :: "nat \<Rightarrow> char" where
  "digit_char d = char_of (48 + d)"

fun dec :: "nat \<Rightarrow> string" where
  "dec n = (if n < 10 then [digit_char n] else dec (n div 10) @ [digit_char (n mod 10)])"

declare dec.simps [simp del]

definition dec_int :: "int \<Rightarrow> string" where
  "dec_int i = (if i < 0 then ''-'' @ dec (nat (- i)) else dec (nat i))"

text \<open>Reading decimal digits back, to state that formatting loses nothing.\<close>

fun undec :: "string \<Rightarrow> nat \<Rightarrow> nat" where
  "undec [] acc = acc"
| "undec (c # cs) acc = undec cs (10 * acc + (of_char c - 48))"

lemma undec_append: "undec (xs @ ys) acc = undec ys (undec xs acc)"
  by (induction xs arbitrary: acc) auto

lemma of_char_digit: "d < 10 \<Longrightarrow> (of_char (digit_char d) :: nat) = 48 + d"
  by (simp add: digit_char_def)

lemma undec_dec: "undec (dec n) 0 = n"
proof (induction n rule: dec.induct)
  case (1 n)
  show ?case
  proof (cases "n < 10")
    case True
    then show ?thesis by (simp add: dec.simps [of n] of_char_digit)
  next
    case False
    with 1 have "undec (dec (n div 10)) 0 = n div 10" by simp
    with False show ?thesis
      by (simp add: dec.simps [of n] undec_append of_char_digit)
  qed
qed

lemma dec_inject: "dec m = dec n \<longleftrightarrow> m = n"
  by (metis undec_dec)

lemma dec_not_minus: "dec n \<noteq> ''-'' @ s"
proof (induction n arbitrary: s rule: dec.induct)
  case (1 n)
  show ?case
  proof (cases "n < 10")
    case True
    then have "(of_char (digit_char n) :: nat) \<noteq> of_char (CHR ''-'')" by (simp add: of_char_digit)
    then show ?thesis using True by (auto simp: dec.simps [of n])
  next
    case False
    then obtain c cs where d: "dec (n div 10) = c # cs"
      by (cases "dec (n div 10)") (auto simp: dec.simps [of "n div 10"] split: if_splits)
    then have "c \<noteq> CHR ''-''" using "1.IH" [OF False, of cs] by auto
    then show ?thesis using False d by (simp add: dec.simps [of n])
  qed
qed

lemma dec_int_inject: "dec_int i = dec_int j \<longleftrightarrow> i = j"
  using dec_not_minus [of "nat i"] dec_not_minus [of "nat j"] dec_not_minus [of "nat i", THEN not_sym]
  by (auto simp: dec_int_def dec_inject dest: sym)

section \<open>Strings\<close>

abbreviation nl :: char where "nl \<equiv> CHR 0x0A"
abbreviation cr :: char where "cr \<equiv> CHR 0x0D"

definition crlf :: string where
  "crlf = [cr, nl]"

text \<open>\<open>str::trim_end_matches(c)\<close> for one ASCII character.\<close>

definition trim_end_matches :: "char \<Rightarrow> string \<Rightarrow> string" where
  "trim_end_matches c s = rev (dropWhile (\<lambda>d. d = c) (rev s))"

text \<open>
  \<open>str::split_inclusive\<close> on newline, and \<open>str::lines\<close>, which strips the line
  feed of each piece and one carriage return before it.
\<close>

fun split_inclusive :: "string \<Rightarrow> string list" where
  "split_inclusive [] = []"
| "split_inclusive (c # cs) =
     (if c = nl then [c] # split_inclusive cs
      else case split_inclusive cs of [] \<Rightarrow> [[c]] | l # ls \<Rightarrow> (c # l) # ls)"

definition strip_suffix :: "char \<Rightarrow> string \<Rightarrow> string option" where
  "strip_suffix c s = (if s \<noteq> [] \<and> last s = c then Some (butlast s) else None)"

definition strip_eol :: "string \<Rightarrow> string" where
  "strip_eol l =
     (case strip_suffix nl l of
        None \<Rightarrow> l
      | Some l1 \<Rightarrow> (case strip_suffix cr l1 of None \<Rightarrow> l1 | Some l2 \<Rightarrow> l2))"

definition str_lines :: "string \<Rightarrow> string list" where
  "str_lines s = map strip_eol (split_inclusive s)"

text \<open>\<open>[&str]::join\<close>.\<close>

fun str_join :: "string \<Rightarrow> string list \<Rightarrow> string" where
  "str_join sep [] = []"
| "str_join sep [x] = x"
| "str_join sep (x # y # ys) = x @ sep @ str_join sep (y # ys)"

lemma trim_end_matches_prefix: "\<exists>n. s = trim_end_matches c s @ replicate n c"
proof -
  let ?t = "takeWhile (\<lambda>d. d = c) (rev s)"
  have "?t = replicate (length ?t) c"
    by (rule replicate_eqI [symmetric, THEN sym]) (auto dest: set_takeWhileD)
  then have "rev s = replicate (length ?t) c @ dropWhile (\<lambda>d. d = c) (rev s)"
    by (metis takeWhile_dropWhile_id)
  then have "s = rev (dropWhile (\<lambda>d. d = c) (rev s)) @ replicate (length ?t) c"
    by (metis rev_append rev_replicate rev_rev_ident)
  then show ?thesis unfolding trim_end_matches_def by blast
qed

lemma concat_split_inclusive: "concat (split_inclusive s) = s"
  by (induction s) (auto split: list.splits)

lemma split_inclusive_nl: "nl \<notin> set xs \<Longrightarrow> split_inclusive (xs @ nl # ys) = (xs @ [nl]) # split_inclusive ys"
  by (induction xs) auto

lemma split_inclusive_last: "nl \<notin> set xs \<Longrightarrow> xs \<noteq> [] \<Longrightarrow> split_inclusive xs = [xs]"
proof (induction xs)
  case (Cons x xs)
  then show ?case by (cases xs) auto
qed simp

lemma split_inclusive_no_inner_nl: "l \<in> set (split_inclusive s) \<Longrightarrow> nl \<notin> set (butlast l)"
proof (induction s arbitrary: l)
  case Nil
  then show ?case by simp
next
  case (Cons c cs)
  show ?case
  proof (cases "split_inclusive cs")
    case Nil
    then show ?thesis using Cons.prems by (auto split: if_splits)
  next
    case (Cons m ms)
    then show ?thesis using Cons.prems Cons.IH by (auto split: if_splits)
  qed
qed

lemma str_lines_no_nl: "l \<in> set (str_lines s) \<Longrightarrow> nl \<notin> set l"
proof -
  assume "l \<in> set (str_lines s)"
  then obtain m where m: "m \<in> set (split_inclusive s)" and l: "l = strip_eol m"
    by (auto simp: str_lines_def)
  have inner: "nl \<notin> set (butlast m)" by (rule split_inclusive_no_inner_nl [OF m])
  have last: "set m \<subseteq> set (butlast m) \<union> {last m}"
    by (cases "m = []") (auto, metis append_butlast_last_id rotate1.simps(2) set_ConsD set_rotate1)
  show ?thesis
    using inner last unfolding l strip_eol_def strip_suffix_def
    by (auto split: option.splits if_splits dest: in_set_butlastD)
qed

lemma count_nl_str_join:
  "(\<forall>l \<in> set ls. nl \<notin> set l) \<Longrightarrow> count_list (str_join [nl] ls) nl = length ls - 1"
  by (induction "[nl]" ls rule: str_join.induct) (auto simp: count_list_0_iff)

section \<open>UTF-8 validity (\<open>str::from_utf8\<close>)\<close>

definition cont_byte :: "nat \<Rightarrow> bool" where
  "cont_byte b \<longleftrightarrow> 128 \<le> b \<and> b \<le> 191"

fun utf8_bytes :: "nat list \<Rightarrow> bool" where
  "utf8_bytes [] = True"
| "utf8_bytes (a # bs) =
     (if a < 128 then utf8_bytes bs
      else case bs of
        [] \<Rightarrow> False
      | b # cs \<Rightarrow>
          if 194 \<le> a \<and> a \<le> 223 then cont_byte b \<and> utf8_bytes cs
          else case cs of
            [] \<Rightarrow> False
          | c # ds \<Rightarrow>
              if a = 224 then 160 \<le> b \<and> b \<le> 191 \<and> cont_byte c \<and> utf8_bytes ds
              else if 225 \<le> a \<and> a \<le> 236 then cont_byte b \<and> cont_byte c \<and> utf8_bytes ds
              else if a = 237 then 128 \<le> b \<and> b \<le> 159 \<and> cont_byte c \<and> utf8_bytes ds
              else if 238 \<le> a \<and> a \<le> 239 then cont_byte b \<and> cont_byte c \<and> utf8_bytes ds
              else case ds of
                [] \<Rightarrow> False
              | d # es \<Rightarrow>
                  if a = 240 then 144 \<le> b \<and> b \<le> 191 \<and> cont_byte c \<and> cont_byte d \<and> utf8_bytes es
                  else if 241 \<le> a \<and> a \<le> 243 then
                    cont_byte b \<and> cont_byte c \<and> cont_byte d \<and> utf8_bytes es
                  else if a = 244 then
                    128 \<le> b \<and> b \<le> 143 \<and> cont_byte c \<and> cont_byte d \<and> utf8_bytes es
                  else False)"

definition utf8_valid :: "string \<Rightarrow> bool" where
  "utf8_valid s = utf8_bytes (map of_char s)"

section \<open>Paths\<close>

text \<open>\<open>PathBuf::join\<close> and \<open>Path::with_extension\<close> on Unix paths.\<close>

definition path_join :: "path \<Rightarrow> path \<Rightarrow> path" where
  "path_join d n =
     (if n \<noteq> [] \<and> hd n = CHR ''/'' then n
      else if d = [] then n
      else if last d = CHR ''/'' then d @ n
      else d @ ''/'' @ n)"

definition file_name :: "path \<Rightarrow> string" where
  "file_name p = rev (takeWhile (\<lambda>c. c \<noteq> CHR ''/'') (rev p))"

definition file_stem :: "string \<Rightarrow> string" where
  "file_stem f =
     (let r = rev f; ext = takeWhile (\<lambda>c. c \<noteq> CHR ''.'') r;
          rest = dropWhile (\<lambda>c. c \<noteq> CHR ''.'') r
      in if f = ''..'' \<or> rest = [] \<or> tl rest = [] then f else rev (tl rest))"

text \<open>For paths with a file name and no trailing slash, as all paths the daemon builds.\<close>

definition with_extension :: "path \<Rightarrow> string \<Rightarrow> path" where
  "with_extension p ext =
     (let f = file_name p
      in if f = [] \<or> f = ''..'' then p
         else take (length p - length f) p @ file_stem f @
              (if ext = [] then [] else ''.'' @ ext))"

section \<open>Instants and durations\<close>

definition ns_per_sec :: nat where "ns_per_sec = 1000000000"

definition ns_per_ms :: nat where "ns_per_ms = 1000000"

text \<open>
  \<open>Instant + Duration::from_secs(s)\<close>: the seconds are a signed 64-bit number and the
  addition is checked; on overflow the program panics (\<open>None\<close>).
\<close>

definition instant_add :: "instant \<Rightarrow> u64 \<Rightarrow> instant option" where
  "instant_add t s =
     (let r = t + unat s * ns_per_sec in if r < 2 ^ 63 * ns_per_sec then Some r else None)"

text \<open>\<open>since.elapsed()\<close> at the clock reading \<open>now\<close>: never negative.\<close>

definition elapsed :: "instant \<Rightarrow> instant \<Rightarrow> nat" where
  "elapsed now since = now - since"

lemma instant_add_SomeD:
  "instant_add t s = Some d \<Longrightarrow> d = t + unat s * ns_per_sec \<and> d < 2 ^ 63 * ns_per_sec"
  by (auto simp: instant_add_def Let_def split: if_splits)

end
