(* ===== verification/Os_Interface.thy ===== *)
theory Os_Interface
  imports Prelude
begin

text \<open>
  The boundary between the daemon and everything it calls outside its own sources: the
  kernel (processes, signals, files, sockets, poll) and the monotonic clock.

  The kernel is a parameter: a record \<open>os\<close> with one function per kind of call over an
  abstract world \<open>'w\<close>. A call answers, says how long it took and which signals were
  delivered to the daemon meanwhile, and returns the new world. Nothing is assumed of these
  functions here. The clock and the self-pipe are part of the model: \<open>Instant\<close> never goes
  back and \<open>thread::sleep\<close> lasts at least its argument, as the standard library
  documents, and a delivered signal runs the daemon's own handler
  (\<open>signal_handler\<close> of src/src/main.rs), which appends one byte to the pipe.
  Every call is recorded with its time in \<open>trace\<close>, so that order and timing of effects
  can be stated.
\<close>

section \<open>Data exchanged with the kernel\<close>

datatype csignal = SIGTERM | SIGINT | SIGCHLD | SIGKILL

fun signal_number :: "csignal \<Rightarrow> nat" where
  "signal_number SIGINT = 2"
| "signal_number SIGKILL = 9"
| "signal_number SIGTERM = 15"
| "signal_number SIGCHLD = 17"

datatype io_kind = ConnectionRefused | TimedOut | OtherKind

datatype io_error = IoError (err_kind: io_kind) (err_text: string)

text \<open>\<open>std::process::Command\<close>: program, arguments, added environment, the log file that
  receives stdout and stderr, and the working directory.\<close>

record command =
  c_prog :: string
  c_args :: "string list"
  c_env :: "(string \<times> string) list"
  c_log :: "path option"
  c_cwd :: "path option"

text \<open>What a client of the Unix socket sends on one connection: its bytes, and how the
  stream ends (end of file, or a read error such as the 5 s timeout).\<close>

datatype read_end = Eof | ReadError

record connection =
  conn_bytes :: string
  conn_end :: read_end

datatype wait_status =
    WExited pid int
  | WSignaled pid string
  | WStillAlive
  | WError
  | WOther

section \<open>The calls\<close>

type_synonym ('w, 'a) call = "'w \<Rightarrow> 'a \<times> nat \<times> csignal list \<times> 'w"

record 'w os =
  os_tick :: "('w, unit) call"
  os_kill :: "pid \<Rightarrow> csignal option \<Rightarrow> ('w, bool) call"
  os_sleep :: "nat \<Rightarrow> ('w, unit) call"
  os_spawn :: "command \<Rightarrow> ('w, io_error + pid) call"
  os_run :: "command \<Rightarrow> ('w, bool) call"
  os_exists :: "path \<Rightarrow> ('w, bool) call"
  os_metadata :: "path \<Rightarrow> ('w, io_error + u64) call"
  os_open_append :: "path \<Rightarrow> ('w, io_error option) call"
  os_try_clone :: "path \<Rightarrow> ('w, io_error option) call"
  os_rename :: "path \<Rightarrow> path \<Rightarrow> ('w, bool) call"
  os_read_file :: "path \<Rightarrow> ('w, io_error + string) call"
  os_remove_file :: "path \<Rightarrow> ('w, bool) call"
  os_create_dir_all :: "path \<Rightarrow> ('w, bool) call"
  os_connect :: "u16 \<Rightarrow> nat \<Rightarrow> ('w, io_error + unit) call"
  os_http :: "string \<Rightarrow> nat \<Rightarrow> ('w, unit) call"
  os_poll :: "nat \<Rightarrow> ('w, (bool \<times> bool) option) call"
  os_accept :: "('w, connection option) call"
  os_recv :: "('w, unit) call"
  os_reply :: "string \<Rightarrow> ('w, bool) call"
  os_waitpid :: "('w, wait_status) call"
  os_env_var :: "string \<Rightarrow> ('w, string option) call"
  os_bind :: "path \<Rightarrow> ('w, bool) call"
  os_pipe :: "('w, int option) call"

datatype event =
    EvKill pid "csignal option" bool
  | EvSleep nat
  | EvSpawn command "io_error + pid"
  | EvRun command bool
  | EvExists path bool
  | EvMetadata path "io_error + u64"
  | EvOpenAppend path "io_error option"
  | EvTryClone path "io_error option"
  | EvRename path path bool
  | EvReadFile path "io_error + string"
  | EvRemoveFile path bool
  | EvCreateDirAll path bool
  | EvConnect u16 nat "io_error + unit"
  | EvHttp string nat
  | EvPoll nat "(bool \<times> bool) option"
  | EvAccept "connection option"
  | EvReply string bool
  | EvWaitpid wait_status
  | EvBind path bool

record 'w env =
  clock :: instant
  sig_pipe_fd :: int
  sigpipe :: string
  world :: 'w
  trace :: "(instant \<times> event) list"

section \<open>Signals and the self-pipe\<close>

definition signal_byte :: "csignal \<Rightarrow> char" where
  "signal_byte sig = (if sig = SIGCHLD then CHR ''C'' else CHR ''T'')"

definition signal_handler :: "csignal \<Rightarrow> 'w env \<Rightarrow> 'w env" where
  "signal_handler sig e =
     (if 0 \<le> sig_pipe_fd e then e\<lparr>sigpipe := sigpipe e @ [signal_byte sig]\<rparr> else e)"

text \<open>The signals \<open>setup_signal_handler\<close> installs the handler for.\<close>

definition handled_signals :: "csignal list" where
  "handled_signals = [SIGTERM, SIGINT, SIGCHLD]"

definition setup_signal_handler :: "int \<Rightarrow> 'w env \<Rightarrow> 'w env" where
  "setup_signal_handler write_fd e = e\<lparr>sig_pipe_fd := write_fd\<rparr>"

definition deliver :: "csignal list \<Rightarrow> 'w env \<Rightarrow> 'w env" where
  "deliver sigs e = fold signal_handler (filter (\<lambda>s. s \<in> set handled_signals) sigs) e"

section \<open>Making a call\<close>

definition sys :: "('w, 'a) call \<Rightarrow> ('a \<Rightarrow> event list) \<Rightarrow> 'w env \<Rightarrow> 'a \<times> 'w env" where
  "sys f evs e =
     (case f (world e) of (a, dt, sigs, w) \<Rightarrow>
        let e1 = deliver sigs (e\<lparr>clock := clock e + dt, world := w\<rparr>)
        in (a, e1\<lparr>trace := trace e1 @ map (Pair (clock e1)) (evs a)\<rparr>))"

text \<open>\<open>Instant::now()\<close>: some time passes, then the clock is read.\<close>

definition instant_now :: "'w os \<Rightarrow> 'w env \<Rightarrow> instant \<times> 'w env" where
  "instant_now os e = (let e1 = snd (sys (os_tick os) (\<lambda>_. []) e) in (clock e1, e1))"

text \<open>\<open>thread::sleep(d)\<close>: lasts \<open>d\<close> and whatever the kernel adds to it.\<close>

definition sleep_ms :: "'w os \<Rightarrow> nat \<Rightarrow> 'w env \<Rightarrow> 'w env" where
  "sleep_ms os d e =
     snd (sys (\<lambda>w. case os_sleep os d w of (a, dt, s, w') \<Rightarrow> (a, d * ns_per_ms + dt, s, w'))
            (\<lambda>_. [EvSleep d]) e)"

definition kill :: "'w os \<Rightarrow> pid \<Rightarrow> csignal option \<Rightarrow> 'w env \<Rightarrow> bool \<times> 'w env" where
  "kill os p s = sys (os_kill os p s) (\<lambda>ok. [EvKill p s ok])"

definition spawn :: "'w os \<Rightarrow> command \<Rightarrow> 'w env \<Rightarrow> (io_error + pid) \<times> 'w env" where
  "spawn os c = sys (os_spawn os c) (\<lambda>r. [EvSpawn c r])"

text \<open>\<open>Command::status\<close> and \<open>Command::output\<close>: run to completion; true when it
  could be run and exited successfully.\<close>

definition run_command :: "'w os \<Rightarrow> command \<Rightarrow> 'w env \<Rightarrow> bool \<times> 'w env" where
  "run_command os c = sys (os_run os c) (\<lambda>r. [EvRun c r])"

definition path_exists :: "'w os \<Rightarrow> path \<Rightarrow> 'w env \<Rightarrow> bool \<times> 'w env" where
  "path_exists os p = sys (os_exists os p) (\<lambda>r. [EvExists p r])"

definition metadata_len :: "'w os \<Rightarrow> path \<Rightarrow> 'w env \<Rightarrow> (io_error + u64) \<times> 'w env" where
  "metadata_len os p = sys (os_metadata os p) (\<lambda>r. [EvMetadata p r])"

definition open_append :: "'w os \<Rightarrow> path \<Rightarrow> 'w env \<Rightarrow> io_error option \<times> 'w env" where
  "open_append os p = sys (os_open_append os p) (\<lambda>r. [EvOpenAppend p r])"

definition try_clone :: "'w os \<Rightarrow> path \<Rightarrow> 'w env \<Rightarrow> io_error option \<times> 'w env" where
  "try_clone os p = sys (os_try_clone os p) (\<lambda>r. [EvTryClone p r])"

definition rename :: "'w os \<Rightarrow> path \<Rightarrow> path \<Rightarrow> 'w env \<Rightarrow> bool \<times> 'w env" where
  "rename os p q = sys (os_rename os p q) (\<lambda>r. [EvRename p q r])"

definition remove_file :: "'w os \<Rightarrow> path \<Rightarrow> 'w env \<Rightarrow> bool \<times> 'w env" where
  "remove_file os p = sys (os_remove_file os p) (\<lambda>r. [EvRemoveFile p r])"

definition create_dir_all :: "'w os \<Rightarrow> path \<Rightarrow> 'w env \<Rightarrow> bool \<times> 'w env" where
  "create_dir_all os p = sys (os_create_dir_all os p) (\<lambda>r. [EvCreateDirAll p r])"

text \<open>\<open>fs::read_to_string\<close>: the bytes of the file, which must be UTF-8.\<close>

definition read_to_string :: "'w os \<Rightarrow> path \<Rightarrow> 'w env \<Rightarrow> (io_error + string) \<times> 'w env" where
  "read_to_string os p e =
     (case sys (os_read_file os p) (\<lambda>r. [EvReadFile p r]) e of
        (Inl err, e1) \<Rightarrow> (Inl err, e1)
      | (Inr bytes, e1) \<Rightarrow>
          (if utf8_valid bytes then Inr bytes
           else Inl (IoError OtherKind ''stream did not contain valid UTF-8''), e1))"

text \<open>\<open>TcpStream::connect_timeout\<close> to a port of 127.0.0.1, with the timeout in
  seconds; and the exchange on the stream, whose results the callers ignore.\<close>

definition connect_timeout :: "'w os \<Rightarrow> u16 \<Rightarrow> nat \<Rightarrow> 'w env \<Rightarrow> (io_error + unit) \<times> 'w env" where
  "connect_timeout os port secs = sys (os_connect os port secs) (\<lambda>r. [EvConnect port secs r])"

definition http_exchange :: "'w os \<Rightarrow> string \<Rightarrow> nat \<Rightarrow> 'w env \<Rightarrow> 'w env" where
  "http_exchange os req n e = snd (sys (os_http os req n) (\<lambda>_. [EvHttp req n]) e)"

text \<open>\<open>poll\<close> on the listener and the read end of the self-pipe: \<open>None\<close> when it fails
  (\<open>EINTR\<close>, say), else whether each has \<open>POLLIN\<close> set.\<close>

definition poll_fds :: "'w os \<Rightarrow> nat \<Rightarrow> 'w env \<Rightarrow> (bool \<times> bool) option \<times> 'w env" where
  "poll_fds os ms = sys (os_poll os ms) (\<lambda>r. [EvPoll ms r])"

definition accept :: "'w os \<Rightarrow> 'w env \<Rightarrow> connection option \<times> 'w env" where
  "accept os = sys (os_accept os) (\<lambda>r. [EvAccept r])"

definition recv_wait :: "'w os \<Rightarrow> 'w env \<Rightarrow> 'w env" where
  "recv_wait os e = snd (sys (os_recv os) (\<lambda>_. []) e)"

definition reply :: "'w os \<Rightarrow> string \<Rightarrow> 'w env \<Rightarrow> bool \<times> 'w env" where
  "reply os s = sys (os_reply os s) (\<lambda>r. [EvReply s r])"

definition waitpid_nohang :: "'w os \<Rightarrow> 'w env \<Rightarrow> wait_status \<times> 'w env" where
  "waitpid_nohang os = sys (os_waitpid os) (\<lambda>r. [EvWaitpid r])"

definition env_var :: "'w os \<Rightarrow> string \<Rightarrow> 'w env \<Rightarrow> string option \<times> 'w env" where
  "env_var os v = sys (os_env_var os v) (\<lambda>_. [])"

definition bind_listener :: "'w os \<Rightarrow> path \<Rightarrow> 'w env \<Rightarrow> bool \<times> 'w env" where
  "bind_listener os p = sys (os_bind os p) (\<lambda>r. [EvBind p r])"

definition make_pipe :: "'w os \<Rightarrow> 'w env \<Rightarrow> int option \<times> 'w env" where
  "make_pipe os = sys (os_pipe os) (\<lambda>_. [])"

text \<open>\<open>read(sig_read, &mut buf)\<close> with a 64-byte buffer.\<close>

definition read_sigpipe :: "nat \<Rightarrow> 'w env \<Rightarrow> string \<times> 'w env" where
  "read_sigpipe n e = (take n (sigpipe e), e\<lparr>sigpipe := drop n (sigpipe e)\<rparr>)"

lemmas call_defs [std_defs] =
  kill_def spawn_def run_command_def path_exists_def metadata_len_def open_append_def
  try_clone_def rename_def remove_file_def create_dir_all_def connect_timeout_def
  http_exchange_def poll_fds_def accept_def recv_wait_def reply_def waitpid_nohang_def
  env_var_def bind_listener_def make_pipe_def instant_now_def sleep_ms_def read_to_string_def

section \<open>What a call does to the environment\<close>

lemma signal_handler_frame [env_simps]:
  "clock (signal_handler s e) = clock e"
  "world (signal_handler s e) = world e"
  "trace (signal_handler s e) = trace e"
  "sig_pipe_fd (signal_handler s e) = sig_pipe_fd e"
  by (simp_all add: signal_handler_def)

lemma fold_handler_frame [env_simps]:
  "clock (fold signal_handler ss e) = clock e"
  "world (fold signal_handler ss e) = world e"
  "trace (fold signal_handler ss e) = trace e"
  "sig_pipe_fd (fold signal_handler ss e) = sig_pipe_fd e"
  by (induction ss arbitrary: e) (simp_all add: env_simps)

lemma deliver_frame [env_simps]:
  "clock (deliver ss e) = clock e"
  "world (deliver ss e) = world e"
  "trace (deliver ss e) = trace e"
  "sig_pipe_fd (deliver ss e) = sig_pipe_fd e"
  by (simp_all add: deliver_def env_simps)

text \<open>The handler loses no signal and keeps their order.\<close>

lemma sigpipe_fold:
  "0 \<le> sig_pipe_fd e \<Longrightarrow> sigpipe (fold signal_handler ss e) = sigpipe e @ map signal_byte ss"
  by (induction ss arbitrary: e) (simp_all add: signal_handler_def)

lemma sigpipe_fold_closed:
  "sig_pipe_fd e < 0 \<Longrightarrow> sigpipe (fold signal_handler ss e) = sigpipe e"
  by (induction ss arbitrary: e) (simp_all add: signal_handler_def)

lemma prefix_sigpipe_deliver: "prefix (sigpipe e) (sigpipe (deliver ss e))"
  by (cases "0 \<le> sig_pipe_fd e") (simp_all add: deliver_def sigpipe_fold sigpipe_fold_closed)

lemma sys_simps [env_simps]:
  "fst (sys f evs e) = fst (f (world e))"
  "clock (snd (sys f evs e)) = clock e + fst (snd (f (world e)))"
  "world (snd (sys f evs e)) = snd (snd (snd (f (world e))))"
  "sig_pipe_fd (snd (sys f evs e)) = sig_pipe_fd e"
  "trace (snd (sys f evs e)) =
     trace e @ map (Pair (clock e + fst (snd (f (world e))))) (evs (fst (f (world e))))"
  by (simp_all add: sys_def Let_def env_simps split: prod.split)

lemma sys_facts:
  assumes "sys f evs e = (a, e1)"
  shows "trace e1 = trace e @ map (Pair (clock e1)) (evs a)" and "clock e \<le> clock e1"
    and "a = fst (f (world e))" and "world e1 = snd (snd (snd (f (world e))))"
proof -
  from assms have a: "a = fst (sys f evs e)" and e1: "e1 = snd (sys f evs e)" by simp_all
  show "trace e1 = trace e @ map (Pair (clock e1)) (evs a)" and "clock e \<le> clock e1"
    and "a = fst (f (world e))" and "world e1 = snd (snd (snd (f (world e))))"
    unfolding a e1 by (simp_all add: env_simps)
qed

text \<open>
  The order on environments that every operation respects: time passes, the trace grows,
  and bytes are only appended to the self-pipe.
\<close>

definition env_le :: "'w env \<Rightarrow> 'w env \<Rightarrow> bool" where
  "env_le e e' \<longleftrightarrow>
     clock e \<le> clock e' \<and> prefix (trace e) (trace e') \<and> prefix (sigpipe e) (sigpipe e')
     \<and> sig_pipe_fd e' = sig_pipe_fd e"

lemma env_le_refl [simp, intro]: "env_le e e"
  by (simp add: env_le_def)

lemma env_le_trans [trans]: "env_le a b \<Longrightarrow> env_le b c \<Longrightarrow> env_le a c"
  by (auto simp: env_le_def)

lemma prefix_sigpipe_sys: "prefix (sigpipe e) (sigpipe (snd (sys f evs e)))"
proof -
  obtain a dt ss w where f: "f (world e) = (a, dt, ss, w)" by (cases "f (world e)")
  have "prefix (sigpipe (e\<lparr>clock := clock e + dt, world := w\<rparr>))
          (sigpipe (deliver ss (e\<lparr>clock := clock e + dt, world := w\<rparr>)))"
    by (rule prefix_sigpipe_deliver)
  then show ?thesis by (simp add: sys_def Let_def f)
qed

lemma env_le_sys: "env_le e (snd (sys f evs e))"
  by (simp add: env_le_def env_simps prefix_sigpipe_sys)

text \<open>
  The calls that make up the daemon's own event loop: polling, accepting a client, answering
  it and reaping children. Every other event is internal to an operation.
\<close>

fun inner_event :: "event \<Rightarrow> bool" where
  "inner_event (EvPoll _ _) = False"
| "inner_event (EvAccept _) = False"
| "inner_event (EvReply _ _) = False"
| "inner_event (EvWaitpid _) = False"
| "inner_event _ = True"

text \<open>
  What every operation of the components does: it moves forward in \<open>env_le\<close> and leaves
  internal events only.
\<close>

definition op_le :: "'w env \<Rightarrow> 'w env \<Rightarrow> bool" where
  "op_le e e' \<longleftrightarrow>
     clock e \<le> clock e' \<and> prefix (sigpipe e) (sigpipe e') \<and> sig_pipe_fd e' = sig_pipe_fd e
     \<and> (\<exists>evs. trace e' = trace e @ evs \<and> (\<forall>ev \<in> set evs. inner_event (snd ev)))"

lemma op_le_refl [simp, intro]: "op_le e e"
  by (simp add: op_le_def)

lemma op_le_trans [trans]: "op_le a b \<Longrightarrow> op_le b c \<Longrightarrow> op_le a c"
  by (fastforce simp: op_le_def)

lemma op_le_env_le: "op_le a b \<Longrightarrow> env_le a b"
  by (auto simp: op_le_def env_le_def)

lemma op_le_sys:
  assumes "\<And>a. list_all inner_event (evs a)"
  shows "op_le e (snd (sys f evs e))"
  using assms by (auto simp: op_le_def env_simps prefix_sigpipe_sys list_all_iff)

lemma op_le_read_to_string: "op_le e (snd (read_to_string os p e))"
  using op_le_sys [of "\<lambda>r. [EvReadFile p r]" e "os_read_file os p"]
  by (auto simp: read_to_string_def split: prod.splits sum.splits)

text \<open>Each call in turn; the collection \<open>env_mono\<close> is what the operations above use.\<close>

named_theorems env_mono "every operation moves forward in op_le"

lemma call_op_le [env_mono]:
  "op_le e (snd (kill os p s e))"
  "op_le e (snd (spawn os c e))"
  "op_le e (snd (run_command os c e))"
  "op_le e (snd (path_exists os q e))"
  "op_le e (snd (metadata_len os q e))"
  "op_le e (snd (open_append os q e))"
  "op_le e (snd (try_clone os q e))"
  "op_le e (snd (rename os q q' e))"
  "op_le e (snd (remove_file os q e))"
  "op_le e (snd (create_dir_all os q e))"
  "op_le e (snd (read_to_string os q e))"
  "op_le e (snd (connect_timeout os port secs e))"
  "op_le e (http_exchange os req n e)"
  "op_le e (recv_wait os e)"
  "op_le e (snd (env_var os v e))"
  "op_le e (snd (bind_listener os q e))"
  "op_le e (snd (make_pipe os e))"
  "op_le e (snd (instant_now os e))"
  "op_le e (sleep_ms os d e)"
  unfolding kill_def spawn_def run_command_def path_exists_def metadata_len_def open_append_def
    try_clone_def rename_def remove_file_def create_dir_all_def connect_timeout_def
    http_exchange_def recv_wait_def env_var_def bind_listener_def make_pipe_def instant_now_def
    sleep_ms_def Let_def snd_conv
  by (rule op_le_read_to_string op_le_sys; simp)+

lemma loop_call_env_le:
  "env_le e (snd (poll_fds os ms e))"
  "env_le e (snd (accept os e))"
  "env_le e (snd (reply os s e))"
  "env_le e (snd (waitpid_nohang os e))"
  unfolding poll_fds_def accept_def reply_def waitpid_nohang_def by (rule env_le_sys)+

lemma instant_now_fst: "fst (instant_now os e) = clock (snd (instant_now os e))"
  by (simp add: instant_now_def Let_def)

lemma instant_now_ge: "clock e \<le> fst (instant_now os e)"
  using call_op_le(18) [of e os] by (simp add: instant_now_fst op_le_def)

lemma instant_now_trace [env_simps]: "trace (snd (instant_now os e)) = trace e"
  by (simp add: instant_now_def Let_def env_simps)

lemma sleep_ms_clock: "clock e + d * ns_per_ms \<le> clock (sleep_ms os d e)"
  by (simp add: sleep_ms_def env_simps split: prod.split)

section \<open>Facts about the world that calls keep\<close>

text \<open>\<open>keeps P c\<close>: the call \<open>c\<close> leaves a fact \<open>P\<close> about the world true.\<close>

definition keeps :: "('w \<Rightarrow> bool) \<Rightarrow> ('w, 'a) call \<Rightarrow> bool" where
  "keeps P c \<longleftrightarrow> (\<forall>w. P w \<longrightarrow> P (snd (snd (snd (c w)))))"

lemma keeps_kill: "keeps P (os_kill os p s) \<Longrightarrow> P (world e) \<Longrightarrow> P (world (snd (kill os p s e)))"
  by (simp add: keeps_def kill_def env_simps)

lemma keeps_now: "keeps P (os_tick os) \<Longrightarrow> P (world e) \<Longrightarrow> P (world (snd (instant_now os e)))"
  by (simp add: keeps_def instant_now_def Let_def env_simps)

lemma keeps_sleep: "keeps P (os_sleep os d) \<Longrightarrow> P (world e) \<Longrightarrow> P (world (sleep_ms os d e))"
  by (simp add: keeps_def sleep_ms_def env_simps case_prod_beta)

end
