(* ===== verification/Sim_Os.thy ===== *)
theory Sim_Os
  imports Os_Interface "HOL-Library.AList"
begin

text \<open>
  A small concrete kernel, an instance of the parameter \<open>os\<close> on which the witnesses
  evaluate: a process table whose entries are running or zombies, files with their sizes,
  and flags for the port of the CA and the vsock of the VM. A terminated child stays in the
  table as a zombie, visible to \<open>kill(pid, 0)\<close>, until \<open>waitpid\<close> reaps it, and its
  death raises SIGCHLD.
\<close>

datatype proc_status = Running | Zombie

record sim =
  s_procs :: "(pid \<times> proc_status) list"
  s_next :: pid
  s_files :: "(path \<times> u64) list"
  s_port_open :: bool
  s_vsock_up :: bool
  s_conns :: "connection list"

definition answer :: "'a \<Rightarrow> nat \<Rightarrow> (sim, 'a) call" where
  "answer a dt w = (a, dt, [], w)"

definition sim_kill :: "pid \<Rightarrow> csignal option \<Rightarrow> (sim, bool) call" where
  "sim_kill p s w =
     (case map_of (s_procs w) p of
        None \<Rightarrow> (False, 0, [], w)
      | Some Zombie \<Rightarrow> (True, 0, [], w)
      | Some Running \<Rightarrow>
          (case s of
             None \<Rightarrow> (True, 0, [], w)
           | Some _ \<Rightarrow> (True, 0, [SIGCHLD], w\<lparr>s_procs := AList.update p Zombie (s_procs w)\<rparr>)))"

definition sim_spawn :: "command \<Rightarrow> (sim, io_error + pid) call" where
  "sim_spawn c w =
     (Inr (s_next w), 1000, [],
      w\<lparr>s_procs := s_procs w @ [(s_next w, Running)], s_next := s_next w + 1\<rparr>)"

definition sim_run :: "command \<Rightarrow> (sim, bool) call" where
  "sim_run c w = answer (if c_prog c = ''pkill'' then True else s_vsock_up w) 1000 w"

definition sim_waitpid :: "(sim, wait_status) call" where
  "sim_waitpid w =
     (case filter (\<lambda>(p, s). s = Zombie) (s_procs w) of
        (p, _) # _ \<Rightarrow>
          (WExited p 0, 0, [], w\<lparr>s_procs := filter (\<lambda>(q, s). q \<noteq> p) (s_procs w)\<rparr>)
      | [] \<Rightarrow> answer (if s_procs w = [] then WError else WStillAlive) 0 w)"

definition sim_metadata :: "path \<Rightarrow> (sim, io_error + u64) call" where
  "sim_metadata p w =
     answer (case map_of (s_files w) p of
               None \<Rightarrow> Inl (IoError OtherKind ''No such file or directory'')
             | Some n \<Rightarrow> Inr n) 0 w"

definition sim_connect :: "u16 \<Rightarrow> nat \<Rightarrow> (sim, io_error + unit) call" where
  "sim_connect port secs w =
     answer (if s_port_open w then Inr ()
             else Inl (IoError ConnectionRefused ''Connection refused'')) 0 w"

definition sim_poll :: "nat \<Rightarrow> (sim, (bool \<times> bool) option) call" where
  "sim_poll ms w =
     answer (Some (s_conns w \<noteq> [], True)) (if s_conns w = [] then ms * ns_per_ms else 0) w"

definition sim_accept :: "(sim, connection option) call" where
  "sim_accept w =
     (case s_conns w of
        [] \<Rightarrow> answer None 0 w
      | c # cs \<Rightarrow> (Some c, 0, [], w\<lparr>s_conns := cs\<rparr>))"

definition sim_os :: "sim os" where
  "sim_os =
     \<lparr>os_tick = answer () 0, os_kill = sim_kill, os_sleep = (\<lambda>_. answer () 0),
      os_spawn = sim_spawn, os_run = sim_run,
      os_exists = (\<lambda>p w. answer (map_of (s_files w) p \<noteq> None) 0 w),
      os_metadata = sim_metadata, os_open_append = (\<lambda>_. answer None 0),
      os_try_clone = (\<lambda>_. answer None 0), os_rename = (\<lambda>_ _. answer True 0),
      os_read_file = (\<lambda>_. answer (Inl (IoError OtherKind ''No such file or directory'')) 0),
      os_remove_file = (\<lambda>_. answer True 0), os_create_dir_all = (\<lambda>_. answer True 0),
      os_connect = sim_connect, os_http = (\<lambda>_ _. answer () 0),
      os_poll = sim_poll, os_accept = sim_accept, os_recv = answer () 0,
      os_reply = (\<lambda>_. answer True 0), os_waitpid = sim_waitpid,
      os_env_var = (\<lambda>_. answer None 0), os_bind = (\<lambda>_. answer True 0),
      os_pipe = answer (Some 4) 0\<rparr>"

text \<open>The same kernel with a fixed file system \<open>F\<close>.\<close>

definition sim_os_fs :: "(path \<Rightarrow> u64 option) \<Rightarrow> sim os" where
  "sim_os_fs F =
     sim_os\<lparr>os_exists := (\<lambda>p. answer (F p \<noteq> None) 0),
            os_metadata := (\<lambda>p. answer (case F p of
                 None \<Rightarrow> Inl (IoError OtherKind ''No such file or directory'')
               | Some n \<Rightarrow> Inr n) 0)\<rparr>"

definition sim_world :: sim where
  "sim_world =
     \<lparr>s_procs = [(7, Running)], s_next = 100, s_files = [], s_port_open = True,
      s_vsock_up = True, s_conns = []\<rparr>"

definition sim_env :: "sim \<Rightarrow> sim env" where
  "sim_env w = \<lparr>clock = 0, sig_pipe_fd = 4, sigpipe = [], world = w, trace = []\<rparr>"

lemmas sim_defs = sim_os_fs_def sim_os_def sim_kill_def sim_spawn_def sim_run_def sim_waitpid_def
  sim_metadata_def sim_connect_def sim_poll_def sim_accept_def answer_def sim_env_def
  sim_world_def

text \<open>Everything the simplifier needs to run an operation on this kernel.\<close>

lemmas sim_eval = sim_defs call_defs sys_def deliver_def handled_signals_def signal_handler_def
  signal_byte_def instant_add_def elapsed_def ns_per_sec_def ns_per_ms_def Let_def

end
