(* ===== verification/Process.thy ===== *)
theory Process
  imports Os_Interface Sim_Os
begin

text \<open>
  The process helpers of src/src/process.rs: spawning with a log file, the graceful kill
  (SIGTERM, a bounded wait, SIGKILL), the liveness probe, the tree kill and the log
  rotation. The wait loop is a total function: its measure is the time left until the
  deadline, which each 200 ms sleep shortens.
\<close>

section \<open>Operations\<close>

definition is_alive :: "'w os \<Rightarrow> pid \<Rightarrow> 'w env \<Rightarrow> bool \<times> 'w env" where
  "is_alive os p e = kill os p None e"

definition rotate_if_needed :: "'w os \<Rightarrow> path \<Rightarrow> u64 \<Rightarrow> 'w env \<Rightarrow> 'w env" where
  "rotate_if_needed os log_path max_bytes e =
     (case metadata_len os log_path e of
        (Inl _, e1) \<Rightarrow> e1
      | (Inr len, e1) \<Rightarrow>
          if max_bytes < len then snd (rename os log_path (with_extension log_path ''log.1'') e1)
          else e1)"

definition max_log_bytes :: u64 where
  "max_log_bytes = 10 * 1024 * 1024"

definition spawn_with_log ::
  "'w os \<Rightarrow> string \<Rightarrow> string list \<Rightarrow> (string \<times> string) list \<Rightarrow> path \<Rightarrow> path option \<Rightarrow> 'w env
   \<Rightarrow> (io_error + pid) \<times> 'w env" where
  "spawn_with_log os cmd args envs log_file cwd e =
     (let e1 = rotate_if_needed os log_file max_log_bytes e in
      case open_append os log_file e1 of
        (Some err, e2) \<Rightarrow> (Inl err, e2)
      | (None, e2) \<Rightarrow>
          (case try_clone os log_file e2 of
             (Some err, e3) \<Rightarrow> (Inl err, e3)
           | (None, e3) \<Rightarrow>
               spawn os \<lparr>c_prog = cmd, c_args = args, c_env = envs,
                         c_log = Some log_file, c_cwd = cwd\<rparr> e3))"

lemma kill_clock: "clock e \<le> clock (snd (kill os p s e))"
  by (simp add: kill_def env_simps)

lemma grace_wait_progress:
  "clock e + 200 * ns_per_ms \<le>
     clock (sleep_ms os 200 (snd (is_alive os p (snd (instant_now os e)))))"
proof -
  let ?e1 = "snd (instant_now os e)" and ?e2 = "snd (is_alive os p (snd (instant_now os e)))"
  have "clock e \<le> clock ?e1" using instant_now_ge [of e os] by (simp add: instant_now_fst)
  also have "\<dots> \<le> clock ?e2" by (simp add: is_alive_def kill_clock)
  finally show ?thesis using sleep_ms_clock [of ?e2 200 os] by linarith
qed

text \<open>The \<open>while\<close> loop of \<open>graceful_kill\<close>: true when the process was seen gone.\<close>

function grace_wait :: "'w os \<Rightarrow> pid \<Rightarrow> instant \<Rightarrow> 'w env \<Rightarrow> bool \<times> 'w env" where
  "grace_wait os p deadline e =
     (let (now, e1) = instant_now os e in
      if now < deadline then
        let (alive, e2) = is_alive os p e1 in
        if \<not> alive then (True, e2)
        else grace_wait os p deadline (sleep_ms os 200 e2)
      else (False, e1))"
  by pat_completeness auto

termination
proof (relation "measure (\<lambda>(os, p, deadline, e). deadline - clock e)", goal_cases)
  case 1
  show ?case by simp
next
  case (2 os p deadline e now_e1 now e1 alive_e2 alive e2)
  have "clock e < deadline"
    using 2 instant_now_ge [of e os] by (auto dest: arg_cong [where f = fst])
  moreover have "clock e < clock (sleep_ms os 200 e2)"
  proof -
    have "e1 = snd (instant_now os e)" and "e2 = snd (is_alive os p e1)"
      using 2 by (auto dest: arg_cong [where f = snd])
    then show ?thesis using grace_wait_progress [of e os p] by (simp add: ns_per_ms_def)
  qed
  ultimately show ?case by simp
qed

declare grace_wait.simps [simp del]

definition graceful_kill :: "'w os \<Rightarrow> pid \<Rightarrow> u64 \<Rightarrow> 'w env \<Rightarrow> (bool \<times> 'w env) option" where
  "graceful_kill os p grace_secs e =
     (let (alive, e1) = is_alive os p e in
      if \<not> alive then Some (True, e1)
      else
        let (_, e2) = kill os p (Some SIGTERM) e1;
            (now, e3) = instant_now os e2
        in do {
          deadline \<leftarrow> instant_add now grace_secs;
          let (gone, e4) = grace_wait os p deadline e3;
          if gone then Some (True, e4)
          else
            let (_, e5) = kill os p (Some SIGKILL) e4;
                e6 = sleep_ms os 100 e5;
                (alive', e7) = is_alive os p e6
            in Some (\<not> alive', e7)
        })"

definition pkill :: "string list \<Rightarrow> command" where
  "pkill args = \<lparr>c_prog = ''pkill'', c_args = args, c_env = [], c_log = None, c_cwd = None\<rparr>"

definition pkill_children :: "pid \<Rightarrow> csignal \<Rightarrow> command" where
  "pkill_children p sig = pkill [''-P'', dec_int (sint p), ''-'' @ dec (signal_number sig)]"

definition kill_tree :: "'w os \<Rightarrow> pid \<Rightarrow> csignal \<Rightarrow> 'w env \<Rightarrow> 'w env" where
  "kill_tree os p sig e =
     (let (_, e1) = kill os p (Some sig) e;
          (_, e2) = run_command os (pkill_children p sig) e1
      in e2)"

section \<open>What an operation leaves in the trace\<close>

text \<open>
  The signals sent by \<open>kill\<close> (the probe \<open>kill(pid, None)\<close> sends none), in order; below,
  the processes started to stay (\<open>spawned\<close>), the programs run to completion (\<open>commands\<close>,
  \<open>pkill\<close> among them), and the probes with their answers (\<open>probes\<close>).
\<close>

fun sent_signals :: "(instant \<times> event) list \<Rightarrow> (instant \<times> pid \<times> csignal) list" where
  "sent_signals [] = []"
| "sent_signals ((t, EvKill p (Some s) ok) # evs) = (t, p, s) # sent_signals evs"
| "sent_signals (_ # evs) = sent_signals evs"

fun count_sleeps :: "(instant \<times> event) list \<Rightarrow> nat" where
  "count_sleeps [] = 0"
| "count_sleeps ((t, EvSleep d) # evs) = (if d = 200 then 1 else 0) + count_sleeps evs"
| "count_sleeps (_ # evs) = count_sleeps evs"

lemma sent_signals_append [simp]: "sent_signals (xs @ ys) = sent_signals xs @ sent_signals ys"
  by (induction xs rule: sent_signals.induct) auto

lemma count_sleeps_append [simp]: "count_sleeps (xs @ ys) = count_sleeps xs + count_sleeps ys"
  by (induction xs rule: count_sleeps.induct) auto

fun spawned :: "(instant \<times> event) list \<Rightarrow> (command \<times> (io_error + pid)) list" where
  "spawned [] = []"
| "spawned ((t, EvSpawn c r) # evs) = (c, r) # spawned evs"
| "spawned (_ # evs) = spawned evs"

fun commands :: "(instant \<times> event) list \<Rightarrow> command list" where
  "commands [] = []"
| "commands ((t, EvRun c ok) # evs) = c # commands evs"
| "commands (_ # evs) = commands evs"

fun probes :: "(instant \<times> event) list \<Rightarrow> (pid \<times> bool) list" where
  "probes [] = []"
| "probes ((t, EvKill p None alive) # evs) = (p, alive) # probes evs"
| "probes (_ # evs) = probes evs"

fun renamed :: "(instant \<times> event) list \<Rightarrow> (path \<times> path) list" where
  "renamed [] = []"
| "renamed ((t, EvRename p q ok) # evs) = (p, q) # renamed evs"
| "renamed (_ # evs) = renamed evs"

lemma spawned_append [simp]: "spawned (xs @ ys) = spawned xs @ spawned ys"
  by (induction xs rule: spawned.induct) auto

lemma commands_append [simp]: "commands (xs @ ys) = commands xs @ commands ys"
  by (induction xs rule: commands.induct) auto

lemma probes_append [simp]: "probes (xs @ ys) = probes xs @ probes ys"
  by (induction xs rule: probes.induct) auto

lemma renamed_append [simp]: "renamed (xs @ ys) = renamed xs @ renamed ys"
  by (induction xs rule: renamed.induct) auto

lemma kill_trace:
  "\<exists>t ok. trace (snd (kill os p s e)) = trace e @ [(t, EvKill p s ok)] \<and> clock e \<le> t
     \<and> t = clock (snd (kill os p s e))"
  by (simp add: kill_def env_simps)

lemma kill_facts:
  assumes "kill os p s e = (ok, e1)"
  shows "trace e1 = trace e @ [(clock e1, EvKill p s ok)] \<and> clock e \<le> clock e1"
  using sys_facts [OF assms [unfolded kill_def]] by simp

lemma sleep_trace: "\<exists>t. trace (sleep_ms os d e) = trace e @ [(t, EvSleep d)]"
  by (simp add: sleep_ms_def env_simps)

text \<open>
  The wait loop only probes the process and sleeps. It finds the process alive each time but
  the last, when it was seen gone; it ends past the deadline otherwise; and it sleeps at most
  once per started 200 ms of the time left.
\<close>

lemma grace_wait_effect:
  assumes "grace_wait os p d e = (gone, e')"
  shows "clock e \<le> clock e' \<and> (\<not> gone \<longrightarrow> d \<le> clock e') \<and>
    (\<exists>evs. trace e' = trace e @ evs \<and> sent_signals evs = [] \<and> spawned evs = [] \<and> commands evs = [] \<and>
       (\<exists>n. probes evs = replicate n (p, True) @ (if gone then [(p, False)] else [])) \<and>
       count_sleeps evs * (200 * ns_per_ms) < (d - clock e) + 200 * ns_per_ms)"
  using assms
proof (induction os p d e arbitrary: gone e' rule: grace_wait.induct)
  case (1 os p d e)
  obtain now e1 where now: "instant_now os e = (now, e1)" by (cases "instant_now os e")
  obtain al e2 where al: "is_alive os p e1 = (al, e2)" by (cases "is_alive os p e1")
  have e1: "clock e \<le> clock e1" "now = clock e1" "trace e1 = trace e"
    using instant_now_ge [of e os] instant_now_fst [of os e] instant_now_trace [of os e]
    by (simp_all add: now)
  obtain t ok where e2: "trace e2 = trace e1 @ [(t, EvKill p None ok)]" "clock e1 \<le> clock e2"
    using kill_trace [of os p None e1] al by (auto simp: is_alive_def)
  consider (late) "\<not> now < d" | (gone) "now < d" "\<not> al" | (again) "now < d" "al" by blast
  then show ?case
  proof cases
    case late
    with "1.prems" now e1 show ?thesis
      by (auto simp: grace_wait.simps [of os p d e] ns_per_ms_def intro!: exI [of _ "[]"])
  next
    case gone
    have "ok = al" using kill_facts [OF al [unfolded is_alive_def]] e2(1) by simp
    with gone "1.prems" now al e1 e2 show ?thesis
      by (auto simp: grace_wait.simps [of os p d e] ns_per_ms_def)
  next
    case again
    let ?e3 = "sleep_ms os 200 e2"
    have rec: "grace_wait os p d ?e3 = (gone, e')"
      using "1.prems" again now al by (simp add: grace_wait.simps [of os p d e])
    note IH = "1.IH" [OF now [symmetric] refl _ al [symmetric] refl _ rec]
    obtain evs n where evs: "trace e' = trace ?e3 @ evs" "sent_signals evs = []"
        "spawned evs = []" "count_sleeps evs * (200 * ns_per_ms) < (d - clock ?e3) + 200 * ns_per_ms"
      and ck: "clock ?e3 \<le> clock e'" "\<not> gone \<longrightarrow> d \<le> clock e'"
      and pr: "commands evs = []" "probes evs = replicate n (p, True) @ (if gone then [(p, False)] else [])"
      using IH again by blast
    have "ok" using kill_facts [OF al [unfolded is_alive_def]] e2(1) again(2) by simp
    obtain t' where e3: "trace ?e3 = trace e2 @ [(t', EvSleep 200)]"
      using sleep_trace by blast
    have ck3: "clock e2 + 200 * ns_per_ms \<le> clock ?e3" by (rule sleep_ms_clock)
    let ?evs = "[(t, EvKill p None ok), (t', EvSleep 200)] @ evs"
    have "count_sleeps ?evs * (200 * ns_per_ms) < (d - clock e) + 200 * ns_per_ms"
    proof -
      have "(d - clock ?e3) + 200 * ns_per_ms \<le> max (d - clock e) (200 * ns_per_ms)"
        using e1 e2 ck3 by auto
      then show ?thesis using evs(4) again e1(2) e1(1) e2(2) ck3
        by (auto simp: max_def split: if_splits)
    qed
    moreover have "\<exists>n. probes ?evs = replicate n (p, True) @ (if gone then [(p, False)] else [])"
      using pr(2) \<open>ok\<close> by (intro exI [of _ "Suc n"]) simp
    moreover have "trace e' = trace e @ ?evs" using evs(1) e3 e2(1) e1(3) by simp
    moreover have "clock e \<le> clock e'" using ck(1) ck3 e1(1) e2(2) by linarith
    moreover have "sent_signals ?evs = []" "spawned ?evs = []" "commands ?evs = []"
      using evs(2,3) pr(1) by simp_all
    ultimately show ?thesis using ck(2) by blast
  qed
qed

text \<open>Graceful kill, one case per way it returns.\<close>

lemma graceful_kill_cases:
  assumes "graceful_kill os p secs e = Some (r, e')"
  obtains
    (dead) "is_alive os p e = (False, e')" and "r"
  | (gone) e1 ok e2 now e3 d where
      "is_alive os p e = (True, e1)" "kill os p (Some SIGTERM) e1 = (ok, e2)"
      "instant_now os e2 = (now, e3)" "instant_add now secs = Some d"
      "grace_wait os p d e3 = (True, e')" "r"
  | (killed) e1 ok e2 now e3 d e4 ok' e5 where
      "is_alive os p e = (True, e1)" "kill os p (Some SIGTERM) e1 = (ok, e2)"
      "instant_now os e2 = (now, e3)" "instant_add now secs = Some d"
      "grace_wait os p d e3 = (False, e4)" "kill os p (Some SIGKILL) e4 = (ok', e5)"
      "is_alive os p (sleep_ms os 100 e5) = (\<not> r, e')"
proof -
  obtain a e1 where a: "is_alive os p e = (a, e1)" by fastforce
  obtain ok e2 where k: "kill os p (Some SIGTERM) e1 = (ok, e2)" by fastforce
  obtain now e3 where n: "instant_now os e2 = (now, e3)" by fastforce
  show thesis
  proof (cases a)
    case False
    with assms a that(1) show ?thesis by (simp add: graceful_kill_def)
  next
    case True
    with assms a k n obtain d where d: "instant_add now secs = Some d"
      by (auto simp: graceful_kill_def elim!: bind_SomeE)
    obtain g e4 where g: "grace_wait os p d e3 = (g, e4)" by fastforce
    obtain ok' e5 where k': "kill os p (Some SIGKILL) e4 = (ok', e5)" by fastforce
    obtain b e7 where b: "is_alive os p (sleep_ms os 100 e5) = (b, e7)" by fastforce
    show ?thesis
    proof (cases g)
      case True
      with assms \<open>a\<close> a k n d g show ?thesis by (intro that(2)) (auto simp: graceful_kill_def)
    next
      case False
      with assms \<open>a\<close> a k n d g k' b show ?thesis
        by (intro that(3)) (auto simp: graceful_kill_def Let_def)
    qed
  qed
qed

lemma instant_now_facts:
  "instant_now os e = (now, e1) \<Longrightarrow> now = clock e1 \<and> clock e \<le> clock e1 \<and> trace e1 = trace e"
  using instant_now_ge [of e os] instant_now_fst [of os e] instant_now_trace [of os e] by simp

text \<open>
  What a graceful kill of \<open>p\<close> leaves in the trace: nothing but probes, sleeps and signals.
  Either the first probe finds the process gone and nothing is sent; or it is alive, gets
  SIGTERM, and a later probe, all before it having found it alive, finds it gone; or every
  probe of the wait finds it alive and SIGKILL follows, no earlier than the grace period after
  SIGTERM, and one more probe, which gives the result.
\<close>

definition killed_gracefully :: "pid \<Rightarrow> u64 \<Rightarrow> (instant \<times> event) list \<Rightarrow> bool \<Rightarrow> bool" where
  "killed_gracefully p secs evs r \<longleftrightarrow> spawned evs = [] \<and> commands evs = [] \<and>
     (probes evs = [(p, False)] \<and> sent_signals evs = [] \<and> r \<or>
      (\<exists>n t. probes evs = replicate (Suc n) (p, True) @ [(p, False)] \<and>
         sent_signals evs = [(t, p, SIGTERM)] \<and> r) \<or>
      (\<exists>n t t'. probes evs = replicate (Suc n) (p, True) @ [(p, \<not> r)] \<and>
         sent_signals evs = [(t, p, SIGTERM), (t', p, SIGKILL)] \<and> t + unat secs * ns_per_sec \<le> t'))"

lemma graceful_kill_trace:
  assumes "graceful_kill os p secs e = Some (r, e')"
  shows "\<exists>evs. trace e' = trace e @ evs \<and> killed_gracefully p secs evs r"
  using assms
proof (cases rule: graceful_kill_cases)
  case dead
  from kill_facts [OF dead(1) [unfolded is_alive_def]] dead(2) show ?thesis
    by (auto simp: killed_gracefully_def)
next
  case (gone e1 ok e2 now e3 d)
  from grace_wait_effect [OF gone(5)] obtain evs n where
    evs: "trace e' = trace e3 @ evs" "sent_signals evs = []" "spawned evs = []" "commands evs = []"
      "probes evs = replicate n (p, True) @ [(p, False)]" by auto
  let ?evs = "[(clock e1, EvKill p None True), (clock e2, EvKill p (Some SIGTERM) ok)] @ evs"
  have "trace e' = trace e @ ?evs"
    using evs kill_facts [OF gone(1) [unfolded is_alive_def]] kill_facts [OF gone(2)]
      instant_now_facts [OF gone(3)] by simp
  then show ?thesis using evs(2-5) gone(6)
    by (intro exI [of _ ?evs]) (auto simp: killed_gracefully_def)
next
  case (killed e1 ok e2 now e3 d e4 ok' e5)
  from grace_wait_effect [OF killed(5)] obtain evs n where
    evs: "trace e4 = trace e3 @ evs" "sent_signals evs = []" "spawned evs = []" "commands evs = []"
      "probes evs = replicate n (p, True)" and d: "d \<le> clock e4" by auto
  obtain t' where slp: "trace (sleep_ms os 100 e5) = trace e5 @ [(t', EvSleep 100)]"
    using sleep_trace by blast
  let ?evs = "[(clock e1, EvKill p None True), (clock e2, EvKill p (Some SIGTERM) ok)] @ evs
    @ [(clock e5, EvKill p (Some SIGKILL) ok'), (t', EvSleep 100), (clock e', EvKill p None (\<not> r))]"
  have "trace e' = trace e @ ?evs"
    using evs(1) slp kill_facts [OF killed(1) [unfolded is_alive_def]] kill_facts [OF killed(2)]
      instant_now_facts [OF killed(3)] kill_facts [OF killed(6)]
      kill_facts [OF killed(7) [unfolded is_alive_def]] by simp
  moreover have "sent_signals ?evs = [(clock e2, p, SIGTERM), (clock e5, p, SIGKILL)]"
    using evs(2) by simp
  moreover have "clock e2 + unat secs * ns_per_sec \<le> clock e5"
    using d instant_add_SomeD [OF killed(4)] instant_now_facts [OF killed(3)]
      kill_facts [OF killed(6)] by simp
  moreover have "spawned ?evs = []" "commands ?evs = []" "probes ?evs = replicate (Suc n) (p, True) @ [(p, \<not> r)]"
    using evs(3-5) by simp_all
  ultimately show ?thesis unfolding killed_gracefully_def by blast
qed

lemma killed_gracefully_only:
  "killed_gracefully p secs evs r \<Longrightarrow> (t, q, s) \<in> set (sent_signals evs) \<Longrightarrow> q = p"
  "killed_gracefully p secs evs r \<Longrightarrow> spawned evs = []"
  "killed_gracefully p secs evs r \<Longrightarrow> commands evs = []"
  by (auto simp: killed_gracefully_def)

text \<open>
  C15. What \<open>graceful_kill\<close> does to a process, by what the probes say. If the first finds it
  gone, nothing is sent and the result is true. If it is alive, it gets SIGTERM; if then a
  probe finds it gone, that is all, and the result is true. If every probe of the grace period
  finds it alive it gets SIGKILL, no earlier than the grace period after SIGTERM, and the
  result says whether the last probe finds it gone. No other process is signalled or probed,
  and none is started.
\<close>

theorem graceful_kill_signals:
  assumes "graceful_kill os p secs e = Some (r, e')"
  shows "\<exists>evs. trace e' = trace e @ evs \<and> spawned evs = [] \<and> commands evs = [] \<and>
    (probes evs = [(p, False)] \<and> sent_signals evs = [] \<and> r \<or>
     (\<exists>n t. probes evs = replicate (Suc n) (p, True) @ [(p, False)] \<and>
        sent_signals evs = [(t, p, SIGTERM)] \<and> r) \<or>
     (\<exists>n t t'. probes evs = replicate (Suc n) (p, True) @ [(p, \<not> r)] \<and>
        sent_signals evs = [(t, p, SIGTERM), (t', p, SIGKILL)] \<and> t + unat secs * ns_per_sec \<le> t'))"
  using graceful_kill_trace [OF assms] unfolding killed_gracefully_def .

theorem graceful_kill_signals_witness:
  "\<exists>r e' evs t t'. graceful_kill sim_os 7 1 (sim_env sim_world) = Some (r, e') \<and>
     trace e' = trace (sim_env sim_world) @ evs \<and>
     sent_signals evs = [(t, 7, SIGTERM), (t', 7, SIGKILL)] \<and> t + ns_per_sec \<le> t' \<and>
     last (probes evs) = (7, \<not> r)"
proof -
  have "\<exists>r e' t t'. graceful_kill sim_os 7 1 (sim_env sim_world) = Some (r, e') \<and>
      sent_signals (trace e') = [(t, 7, SIGTERM), (t', 7, SIGKILL)]"
    by (simp add: graceful_kill_def grace_wait.simps is_alive_def sim_eval) blast
  then obtain r e' t t' where g: "graceful_kill sim_os 7 1 (sim_env sim_world) = Some (r, e')"
    "sent_signals (trace e') = [(t, 7, SIGTERM), (t', 7, SIGKILL)]" by blast
  then show ?thesis using graceful_kill_signals [OF g(1)] by (force simp: sim_env_def)
qed

text \<open>
  \<open>graceful_kill\<close> always ends, and it panics exactly when the process is alive and
  the deadline, the grace period after the clock reading that follows SIGTERM, does not fit
  an \<open>Instant\<close>.
\<close>

theorem graceful_kill_returns_iff:
  "(\<exists>r e'. graceful_kill os p secs e = Some (r, e')) \<longleftrightarrow>
     fst (is_alive os p e) = False \<or>
     fst (instant_now os (snd (kill os p (Some SIGTERM) (snd (is_alive os p e)))))
       + unat secs * ns_per_sec < 2 ^ 63 * ns_per_sec"
  by (auto simp: graceful_kill_def instant_add_def Let_def split: prod.splits if_splits)

text \<open>
  C16. The wait is bounded by the configuration alone: \<open>graceful_kill\<close> makes at most five
  200 ms sleeps per second of grace period, whatever the kernel answers.
\<close>

theorem graceful_kill_bounded:
  assumes "graceful_kill os p secs e = Some (r, e')"
  shows "\<exists>evs. trace e' = trace e @ evs \<and> count_sleeps evs \<le> 5 * unat secs"
  using assms
proof (cases rule: graceful_kill_cases)
  case dead
  from kill_facts [OF dead(1) [unfolded is_alive_def]] show ?thesis by auto
next
  case (gone e1 ok e2 now e3 d)
  from grace_wait_effect [OF gone(5)] obtain evs where
    evs: "trace e' = trace e3 @ evs"
      "count_sleeps evs * (200 * ns_per_ms) < (d - clock e3) + 200 * ns_per_ms" by blast
  have "count_sleeps evs \<le> 5 * unat secs"
    using evs(2) instant_add_SomeD [OF gone(4)] instant_now_facts [OF gone(3)]
    by (simp add: ns_per_ms_def ns_per_sec_def)
  then show ?thesis
    using evs(1) kill_facts [OF gone(1) [unfolded is_alive_def]] kill_facts [OF gone(2)]
      instant_now_facts [OF gone(3)] by auto
next
  case (killed e1 ok e2 now e3 d e4 ok' e5)
  from grace_wait_effect [OF killed(5)] obtain evs where
    evs: "trace e4 = trace e3 @ evs"
      "count_sleeps evs * (200 * ns_per_ms) < (d - clock e3) + 200 * ns_per_ms" by blast
  obtain t' where slp: "trace (sleep_ms os 100 e5) = trace e5 @ [(t', EvSleep 100)]"
    using sleep_trace by blast
  have "count_sleeps evs \<le> 5 * unat secs"
    using evs(2) instant_add_SomeD [OF killed(4)] instant_now_facts [OF killed(3)]
    by (simp add: ns_per_ms_def ns_per_sec_def)
  then show ?thesis
    using evs(1) slp kill_facts [OF killed(1) [unfolded is_alive_def]] kill_facts [OF killed(2)]
      instant_now_facts [OF killed(3)] kill_facts [OF killed(6)]
      kill_facts [OF killed(7) [unfolded is_alive_def]] by auto
qed

theorem graceful_kill_bounded_witness:
  "\<exists>r e' evs. graceful_kill sim_os 7 1 (sim_env sim_world) = Some (r, e') \<and>
     trace e' = trace (sim_env sim_world) @ evs \<and> count_sleeps evs \<le> 5 * unat (1 :: u64)"
proof -
  have "graceful_kill sim_os 7 1 (sim_env sim_world) \<noteq> None"
    by (simp add: graceful_kill_def grace_wait.simps is_alive_def sim_eval)
  then obtain r e' where "graceful_kill sim_os 7 1 (sim_env sim_world) = Some (r, e')" by fastforce
  with graceful_kill_bounded [OF this] show ?thesis by blast
qed

section \<open>Killing a child of the daemon\<close>

text \<open>
  \<open>kill(pid, 0)\<close> succeeds on a zombie, and only \<open>waitpid\<close> removes one. \<open>P\<close>
  stands for "\<open>p\<close> is a child not yet waited for": the calls \<open>graceful_kill\<close> makes keep
  it, and under it the probe answers that \<open>p\<close> exists.
\<close>

definition lingers :: "'w os \<Rightarrow> ('w \<Rightarrow> bool) \<Rightarrow> pid \<Rightarrow> bool" where
  "lingers os P p \<longleftrightarrow>
     keeps P (os_tick os) \<and> (\<forall>s. keeps P (os_kill os p s)) \<and> (\<forall>d. keeps P (os_sleep os d))
     \<and> (\<forall>w. P w \<longrightarrow> fst (os_kill os p None w))"

lemma lingers_steps:
  assumes "lingers os P p" and "P (world e)"
  shows lingers_kill: "P (world (snd (kill os p s e)))"
    and lingers_now: "P (world (snd (instant_now os e)))"
    and lingers_sleep: "P (world (sleep_ms os d e))"
    and lingers_alive: "fst (is_alive os p e)"
  using assms keeps_kill [of P os p s e] keeps_now [of P os e] keeps_sleep [of P os d e]
  by (auto simp: lingers_def is_alive_def kill_def env_simps)

lemma grace_wait_lingers:
  assumes "lingers os P p" and "P (world e)" and "grace_wait os p d e = (gone, e')"
  shows "\<not> gone \<and> P (world e')"
  using assms
proof (induction os p d e arbitrary: gone e' rule: grace_wait.induct)
  case (1 os p d e)
  obtain now e1 where now: "instant_now os e = (now, e1)" by fastforce
  obtain al e2 where al: "is_alive os p e1 = (al, e2)" by fastforce
  have P1: "P (world e1)" using lingers_now [OF "1.prems"(1,2)] now by simp
  have P2: "P (world e2)" and "al"
    using lingers_kill [OF "1.prems"(1) P1, of None] lingers_alive [OF "1.prems"(1) P1] al
    by (simp_all add: is_alive_def)
  note P3 = lingers_sleep [OF "1.prems"(1) P2, of 200]
  show ?case
  proof (cases "now < d")
    case True
    then have "grace_wait os p d (sleep_ms os 200 e2) = (gone, e')"
      using "1.prems"(3) now al \<open>al\<close> by (simp add: grace_wait.simps [of os p d e])
    from "1.IH" [OF now [symmetric] refl True al [symmetric] refl _ "1.prems"(1) P3 this] \<open>al\<close>
    show ?thesis by simp
  next
    case False
    then show ?thesis using "1.prems"(3) now P1 by (simp add: grace_wait.simps [of os p d e])
  qed
qed

text \<open>
  C17. On a child of the daemon \<open>graceful_kill\<close> never sees the process gone, even when it
  exits at once on SIGTERM: the zombie answers the probe until it is reaped, which the main
  loop does only later. So it always sends SIGTERM, waits the whole grace period, sends
  SIGKILL, sleeps 100 ms more and returns false.
\<close>

theorem graceful_kill_of_unreaped_child:
  assumes "lingers os P p" and "P (world e)" and "graceful_kill os p secs e = Some (r, e')"
  shows "\<not> r \<and> clock e + unat secs * ns_per_sec + 100 * ns_per_ms \<le> clock e' \<and>
    (\<exists>evs t t'. trace e' = trace e @ evs \<and> t + unat secs * ns_per_sec \<le> t' \<and>
       sent_signals evs = [(t, p, SIGTERM), (t', p, SIGKILL)])"
  using assms(3)
proof (cases rule: graceful_kill_cases)
  case dead
  with lingers_alive [OF assms(1,2)] show ?thesis by simp
next
  case (gone e1 ok e2 now e3 d)
  have "P (world e3)"
    using gone lingers_kill [OF assms(1)] lingers_now [OF assms(1)] assms(2)
    by (metis is_alive_def snd_conv)
  from grace_wait_lingers [OF assms(1) this gone(5)] show ?thesis by simp
next
  case (killed e1 ok e2 now e3 d e4 ok' e5)
  have "P (world e3)"
    using killed lingers_kill [OF assms(1)] lingers_now [OF assms(1)] assms(2)
    by (metis is_alive_def snd_conv)
  from grace_wait_lingers [OF assms(1) this killed(5)] have "P (world e4)" by simp
  then have "P (world (sleep_ms os 100 e5))"
    using killed(6) lingers_kill [OF assms(1)] lingers_sleep [OF assms(1)] by (metis snd_conv)
  then have "\<not> r" using lingers_alive [OF assms(1)] killed(7) by (metis fst_conv)
  moreover have "clock e + unat secs * ns_per_sec + 100 * ns_per_ms \<le> clock e'"
    using grace_wait_effect [OF killed(5)] instant_add_SomeD [OF killed(4)]
      instant_now_facts [OF killed(3)] kill_facts [OF killed(1) [unfolded is_alive_def]]
      kill_facts [OF killed(2)] kill_facts [OF killed(6)]
      kill_facts [OF killed(7) [unfolded is_alive_def]] sleep_ms_clock [of e5 100 os] by simp
  moreover obtain evs where "trace e' = trace e @ evs" "killed_gracefully p secs evs r"
    using graceful_kill_trace [OF assms(3)] by blast
  ultimately show ?thesis unfolding killed_gracefully_def by blast
qed

theorem graceful_kill_of_unreaped_child_witness:
  "\<exists>r e'. lingers sim_os (\<lambda>w. map_of (s_procs w) 7 \<noteq> None) 7 \<and>
     graceful_kill sim_os 7 1 (sim_env sim_world) = Some (r, e') \<and>
     \<not> r \<and> 1100000000 \<le> clock e'"
proof -
  have l: "lingers sim_os (\<lambda>w. map_of (s_procs w) 7 \<noteq> None) 7"
    by (auto simp: lingers_def keeps_def sim_defs update_conv split: option.splits proc_status.splits)
  have w: "map_of (s_procs (world (sim_env sim_world))) 7 \<noteq> None" by (simp add: sim_defs)
  have "graceful_kill sim_os 7 1 (sim_env sim_world) \<noteq> None"
    by (simp add: graceful_kill_def grace_wait.simps is_alive_def sim_eval)
  then obtain r e' where g: "graceful_kill sim_os 7 1 (sim_env sim_world) = Some (r, e')"
    by fastforce
  show ?thesis
    using l g graceful_kill_of_unreaped_child [OF l w g]
    by (auto simp: ns_per_sec_def ns_per_ms_def sim_env_def)
qed

section \<open>Time, trace and self-pipe only grow\<close>

lemma is_alive_env [env_mono]: "op_le e (snd (is_alive os p e))"
  by (simp add: is_alive_def env_mono)

lemma rotate_env [env_mono]: "op_le e (rotate_if_needed os p n e)"
  using op_le_trans [OF call_op_le(5) call_op_le(8)] call_op_le(5)
  by (fastforce simp: rotate_if_needed_def split: prod.split sum.split dest: arg_cong [where f = snd])

lemma spawn_with_log_env [env_mono]: "op_le e (snd (spawn_with_log os c a v l d e))"
proof -
  let ?e1 = "rotate_if_needed os l max_log_bytes e"
  obtain r2 e2 where o: "open_append os l ?e1 = (r2, e2)" by fastforce
  obtain r3 e3 where c: "try_clone os l e2 = (r3, e3)" by fastforce
  have le: "op_le e e2" "op_le e e3"
    using rotate_env [of e os l max_log_bytes] call_op_le(6) [of ?e1 os l] call_op_le(7) [of e2 os l]
      o c by (auto intro: op_le_trans)
  then have "op_le e (snd (spawn os x e3))" for x
    using call_op_le(2) [of e3 os x] by (blast intro: op_le_trans)
  then show ?thesis using le o c
    by (auto simp: spawn_with_log_def split: option.split)
qed

lemma kill_tree_env [env_mono]: "op_le e (kill_tree os p s e)"
  using op_le_trans [OF call_op_le(1) call_op_le(3)]
  by (auto simp: kill_tree_def case_prod_beta)

lemma grace_wait_env: "op_le e (snd (grace_wait os p d e))"
proof (induction os p d e rule: grace_wait.induct)
  case (1 os p d e)
  obtain now e1 where now: "instant_now os e = (now, e1)" by fastforce
  obtain al e2 where al: "is_alive os p e1 = (al, e2)" by fastforce
  have le: "op_le e e1" "op_le e e2" "op_le e (sleep_ms os 200 e2)"
    using call_op_le(18) [of e os] is_alive_env [of e1 os p] call_op_le(19) [of e2 os 200] now al
    by (auto intro: op_le_trans)
  show ?case
    using le now al "1.IH" [OF now [symmetric] refl _ al [symmetric] refl]
    by (auto simp: grace_wait.simps [of os p d e] intro: op_le_trans)
qed

lemma graceful_kill_env:
  assumes "graceful_kill os p secs e = Some (r, e')"
  shows "op_le e e'"
  using assms
proof (cases rule: graceful_kill_cases)
  case dead
  then show ?thesis using is_alive_env [of e os p] by simp
next
  case (gone e1 ok e2 now e3 d)
  then show ?thesis
    using is_alive_env [of e os p] call_op_le(1) [of e1 os p "Some SIGTERM"]
      call_op_le(18) [of e2 os] grace_wait_env [of e3 os p d] by (auto intro: op_le_trans)
next
  case (killed e1 ok e2 now e3 d e4 ok' e5)
  have "op_le e e4"
    using is_alive_env [of e os p] call_op_le(1) [of e1 os p "Some SIGTERM"]
      call_op_le(18) [of e2 os] grace_wait_env [of e3 os p d] killed by (auto intro: op_le_trans)
  also have "op_le e4 e'"
    using call_op_le(1) [of e4 os p "Some SIGKILL"] call_op_le(19) [of e5 os 100]
      is_alive_env [of "sleep_ms os 100 e5" os p] killed by (auto intro: op_le_trans)
  finally show ?thesis .
qed

section \<open>Log rotation and spawning\<close>

text \<open>
  \<open>runs_only C e e'\<close>: from \<open>e\<close> to \<open>e'\<close> no process was started to stay and none was
  signalled (existence probes apart), and only commands in \<open>C\<close> were run. \<open>quiet e e'\<close>: no
  command was run either.
\<close>

definition runs_only :: "command set \<Rightarrow> 'w env \<Rightarrow> 'w env \<Rightarrow> bool" where
  "runs_only C e e' \<longleftrightarrow>
     (\<exists>evs. trace e' = trace e @ evs \<and> spawned evs = [] \<and> sent_signals evs = [] \<and> set (commands evs) \<subseteq> C)"

definition quiet :: "'w env \<Rightarrow> 'w env \<Rightarrow> bool" where
  "quiet e e' \<longleftrightarrow>
     (\<exists>evs. trace e' = trace e @ evs \<and> spawned evs = [] \<and> sent_signals evs = [] \<and> commands evs = [])"

lemma quiet_runs_only: "quiet e e' \<Longrightarrow> runs_only C e e'"
  by (auto simp: quiet_def runs_only_def)

lemma runs_only_trans [trans]: "runs_only C a b \<Longrightarrow> runs_only C b c \<Longrightarrow> runs_only C a c"
  by (fastforce simp: runs_only_def)

lemma run_command_runs: "runs_only {c} e (snd (run_command os c e))"
  by (simp add: runs_only_def run_command_def env_simps)

named_theorems quiet_intros "operations that start, run and signal no process"

lemma quiet_refl [simp, intro]: "quiet e e"
  by (simp add: quiet_def)

lemma quiet_trans [trans]: "quiet a b \<Longrightarrow> quiet b c \<Longrightarrow> quiet a c"
  by (fastforce simp: quiet_def)

lemma quiet_sys:
  assumes "\<And>t a. spawned (map (Pair t) (evs a)) = []" and "\<And>t a. sent_signals (map (Pair t) (evs a)) = []"
    and "\<And>t a. commands (map (Pair t) (evs a)) = []"
  shows "quiet e (snd (sys f evs e))"
  by (simp add: quiet_def env_simps assms)

lemma quiet_calls [quiet_intros]:
  "quiet e (snd (path_exists os q e))" "quiet e (snd (metadata_len os q e))"
  "quiet e (snd (open_append os q e))" "quiet e (snd (try_clone os q e))"
  "quiet e (snd (rename os q q' e))"
  "quiet e (snd (connect_timeout os port secs e))" "quiet e (http_exchange os req n e)"
  "quiet e (snd (instant_now os e))" "quiet e (sleep_ms os d e)" "quiet e (snd (is_alive os p e))"
  "quiet e (snd (reply os s e))" "quiet e (recv_wait os e)" "quiet e (snd (poll_fds os ms e))"
  "quiet e (snd (accept os e))" "quiet e (snd (waitpid_nohang os e))"
  unfolding path_exists_def metadata_len_def open_append_def try_clone_def rename_def
    connect_timeout_def http_exchange_def instant_now_def sleep_ms_def
    is_alive_def kill_def reply_def recv_wait_def poll_fds_def accept_def waitpid_nohang_def
    Let_def snd_conv
  by (rule quiet_sys; simp)+

lemma quiet_read_to_string [quiet_intros]: "quiet e (snd (read_to_string os p e))"
  using quiet_sys [of "\<lambda>r. [EvReadFile p r]" e "os_read_file os p"]
  by (auto simp: read_to_string_def split: prod.splits sum.splits)

lemma take_file_name:
  assumes "CHR ''/'' \<notin> set n"
  shows "file_name (path_join d n) = n"
    and "n \<noteq> [] \<Longrightarrow> take (length (path_join d n) - length n) (path_join d n) @ m = path_join d n' \<longleftrightarrow>
           (if d = [] then m = path_join [] n'
            else (if last d = CHR ''/'' then d else d @ ''/'') @ m = path_join d n')"
proof -
  have n: "takeWhile (\<lambda>c. c \<noteq> CHR ''/'') (rev n @ CHR ''/'' # xs) = rev n" for xs
    using assms by (subst takeWhile_append2) auto
  have n0: "takeWhile (\<lambda>c. c \<noteq> CHR ''/'') (rev n) = rev n"
    using assms by (auto simp: takeWhile_eq_all_conv)
  have hd: "\<not> (n \<noteq> [] \<and> hd n = CHR ''/'')"
    using assms by (cases n) auto
  show "file_name (path_join d n) = n"
  proof (cases d rule: rev_cases)
    case Nil
    then have "path_join d n = n" by (simp add: path_join_def)
    then show ?thesis unfolding file_name_def by (simp only: n0 rev_rev_ident)
  next
    case (snoc d' c)
    then show ?thesis using n hd by (auto simp: file_name_def path_join_def)
  qed
  show "n \<noteq> [] \<Longrightarrow> take (length (path_join d n) - length n) (path_join d n) @ m = path_join d n' \<longleftrightarrow>
           (if d = [] then m = path_join [] n'
            else (if last d = CHR ''/'' then d else d @ ''/'') @ m = path_join d n')"
    using hd by (auto simp: path_join_def)
qed

lemma file_stem_ext:
  assumes "CHR ''.'' \<notin> set ext" and "stem \<noteq> []" and "stem @ ''.'' @ ext \<noteq> ''..''"
  shows "file_stem (stem @ ''.'' @ ext) = stem"
proof -
  have "takeWhile (\<lambda>c. c \<noteq> CHR ''.'') (rev ext @ CHR ''.'' # rev stem) = rev ext"
    and "dropWhile (\<lambda>c. c \<noteq> CHR ''.'') (rev ext @ CHR ''.'' # rev stem) = CHR ''.'' # rev stem"
    using assms(1) by (subst takeWhile_append2 dropWhile_append2, auto)+
  then show ?thesis using assms(2,3) by (simp add: file_stem_def Let_def)
qed

lemma with_extension_log:
  assumes "stem \<noteq> []" and "CHR ''/'' \<notin> set stem"
  shows "with_extension (path_join d (stem @ ''.log'')) ''log.1'' = path_join d (stem @ ''.log.1'')"
proof -
  let ?n = "stem @ ''.log''"
  have n: "CHR ''/'' \<notin> set ?n" using assms(2) by simp
  have stem: "file_stem ?n = stem"
    using file_stem_ext [of "''log''" stem] assms(1) by (cases stem) auto
  have hd: "hd stem \<noteq> CHR ''/''" using assms by (cases stem) auto
  have ne: "?n \<noteq> ''..''" using assms(1) by (cases stem) auto
  have "take (length (path_join d ?n) - length ?n) (path_join d ?n) @ stem @ ''.log.1''
          = path_join d (stem @ ''.log.1'')"
    using take_file_name(2) [OF n, of d "stem @ ''.log.1''" "stem @ ''.log.1''"] assms(1) hd
    by (auto simp: path_join_def)
  then show ?thesis using take_file_name(1) [OF n, of d] stem ne assms(1)
    by (simp add: with_extension_def Let_def)
qed

text \<open>
  C37. Log rotation: a log \<open><stem>.log\<close> is renamed to \<open><stem>.log.1\<close> in the same
  directory when its size is known and above the limit, and is left alone otherwise; nothing
  else is renamed and no process is started or signalled.
\<close>

theorem rotate_if_needed_renames:
  assumes "stem \<noteq> []" and "CHR ''/'' \<notin> set stem"
  shows "\<exists>evs. trace (rotate_if_needed os (path_join d (stem @ ''.log'')) limit e) = trace e @ evs \<and>
    spawned evs = [] \<and> sent_signals evs = [] \<and>
    renamed evs =
      (case fst (metadata_len os (path_join d (stem @ ''.log'')) e) of
         Inl _ \<Rightarrow> []
       | Inr len \<Rightarrow> if limit < len then [(path_join d (stem @ ''.log''), path_join d (stem @ ''.log.1''))]
                    else [])"
  using with_extension_log [OF assms, of d]
  by (auto simp: rotate_if_needed_def metadata_len_def rename_def env_simps case_prod_beta
      split: sum.split)

theorem rotate_if_needed_renames_witness:
  "(''ca'' :: string) \<noteq> [] \<and> CHR ''/'' \<notin> set ''ca'' \<and>
   (\<exists>evs. trace (rotate_if_needed sim_os (path_join ''/l'' (''ca'' @ ''.log'')) 5
        (sim_env (sim_world\<lparr>s_files := [(''/l/ca.log'', 9)]\<rparr>))) = [] @ evs
      \<and> renamed evs = [(''/l/ca.log'', ''/l/ca.log.1'')])"
  using rotate_if_needed_renames
    [of "''ca''" sim_os "''/l''" 5 "sim_env (sim_world\<lparr>s_files := [(''/l/ca.log'', 9)]\<rparr>)"]
  by (auto simp: path_join_def sim_eval)

text \<open>A log file that could not be opened or whose descriptor could not be duplicated.\<close>

fun log_failed :: "path \<Rightarrow> (instant \<times> event) list \<Rightarrow> bool" where
  "log_failed log [] = False"
| "log_failed log ((t, EvOpenAppend p (Some err)) # evs) = (p = log \<or> log_failed log evs)"
| "log_failed log ((t, EvTryClone p (Some err)) # evs) = (p = log \<or> log_failed log evs)"
| "log_failed log (_ # evs) = log_failed log evs"

lemma log_failed_append [simp]: "log_failed log (xs @ ys) \<longleftrightarrow> log_failed log xs \<or> log_failed log ys"
  by (induction log xs rule: log_failed.induct) auto

lemma spawn_with_log_effect:
  assumes "spawn_with_log os cmd args envs log cwd e = (r, e')"
  shows "\<exists>evs. trace e' = trace e @ evs \<and> sent_signals evs = [] \<and> commands evs = [] \<and>
     (spawned evs = [] \<and> (\<exists>err. r = Inl err) \<and> log_failed log evs \<or>
      spawned evs = [(\<lparr>c_prog = cmd, c_args = args, c_env = envs, c_log = Some log, c_cwd = cwd\<rparr>, r)])"
proof -
  define e1 where "e1 = rotate_if_needed os log max_log_bytes e"
  obtain evs where evs: "trace e1 = trace e @ evs" "spawned evs = []" "sent_signals evs = []" "commands evs = []"
  proof -
    have "\<exists>evs. trace e1 = trace e @ evs \<and> spawned evs = [] \<and> sent_signals evs = [] \<and> commands evs = []"
      unfolding e1_def
      by (auto simp: rotate_if_needed_def metadata_len_def rename_def env_simps case_prod_beta
          split: sum.split)
    then show thesis using that by blast
  qed
  obtain r2 e2 where o: "open_append os log e1 = (r2, e2)" by fastforce
  obtain r3 e3 where c: "try_clone os log e2 = (r3, e3)" by fastforce
  have t2: "\<exists>t. trace e2 = trace e1 @ [(t, EvOpenAppend log r2)]"
    using sys_facts [OF o [unfolded open_append_def]] by auto
  have t3: "\<exists>t. trace e3 = trace e2 @ [(t, EvTryClone log r3)]"
    using sys_facts [OF c [unfolded try_clone_def]] by auto
  show ?thesis
    using assms evs t2 t3 o c
    by (cases r2; cases r3)
      (auto simp: spawn_with_log_def e1_def [symmetric] spawn_def dest!: sys_facts(1))
qed

text \<open>
  \<open>spawn_with_log\<close> starts at most one process: the one asked for, with its output
  going to the given log file, and the result is the kernel's answer. When the log file
  cannot be opened or duplicated nothing is started and the error is returned.
\<close>

theorem spawn_with_log_spawns:
  "\<exists>evs. trace (snd (spawn_with_log os cmd args envs log cwd e)) = trace e @ evs \<and>
     sent_signals evs = [] \<and> commands evs = [] \<and>
     (spawned evs = [] \<and> (\<exists>err. fst (spawn_with_log os cmd args envs log cwd e) = Inl err) \<or>
      spawned evs = [(\<lparr>c_prog = cmd, c_args = args, c_env = envs, c_log = Some log, c_cwd = cwd\<rparr>,
                      fst (spawn_with_log os cmd args envs log cwd e))])"
  using spawn_with_log_effect [of os cmd args envs log cwd e]
  by (cases "spawn_with_log os cmd args envs log cwd e") (auto 4 3)

end
