(* ===== verification/Config.thy ===== *)
theory Config
  imports Os_Interface Sim_Os
begin

text \<open>
  The configuration of src/src/config.rs: the record with its seventeen fields, the
  default of each, and loading from \<open>/data/teeproxy/teeproxyd.conf\<close>.

  \<open>serde_json\<close> is a parameter (the record \<open>serde\<close>): it reads the text of the file into
  the entries of a JSON object, or rejects it, and reads a value as a string, an integer of
  a width or a boolean. What \<open>#[derive(Deserialize)]\<close> with
  \<open>#[serde(default = "...")]\<close> on every field asks of it is modelled: a field that is
  absent takes its default, a field given twice or with a value of the wrong type rejects the
  whole document, other keys are ignored. A document that is not an object is left to
  the parameter.
\<close>

section \<open>The record and its defaults\<close>

record config =
  image_dir :: path
  vm_cpus :: u32
  vm_mem_mb :: u32
  vsock_cid :: u32
  ca_binary :: path
  ca_port :: u16
  ca_admin_token :: string
  ca_log_level :: string
  data_dir :: path
  log_dir :: path
  auto_start :: bool
  health_interval_secs :: u64
  health_fail_threshold :: u32
  vm_boot_timeout_secs :: u64
  vsock_probe_delay_secs :: u64
  ca_ready_timeout_secs :: u64
  shutdown_grace_secs :: u64

definition default_image_dir :: path where
  "default_image_dir = ''/data/teeproxy/vm''"

definition default_vm_cpus :: u32 where
  "default_vm_cpus = 2"

definition default_vm_mem_mb :: u32 where
  "default_vm_mem_mb = 256"

definition default_vsock_cid :: u32 where
  "default_vsock_cid = 103"

definition default_ca_binary :: path where
  "default_ca_binary = ''/data/teeproxy/bin/secret_proxy_ca''"

definition default_ca_port :: u16 where
  "default_ca_port = 19030"

definition default_ca_admin_token :: string where
  "default_ca_admin_token = ''dev-admin-token-change-me-please-0001''"

definition default_ca_log_level :: string where
  "default_ca_log_level = ''info''"

definition default_data_dir :: path where
  "default_data_dir = ''/data/teeproxy''"

definition default_log_dir :: path where
  "default_log_dir = ''/data/teeproxy/logs''"

definition default_auto_start :: bool where
  "default_auto_start = True"

definition default_health_interval_secs :: u64 where
  "default_health_interval_secs = 10"

definition default_health_fail_threshold :: u32 where
  "default_health_fail_threshold = 3"

definition default_vm_boot_timeout_secs :: u64 where
  "default_vm_boot_timeout_secs = 60"

definition default_vsock_probe_delay_secs :: u64 where
  "default_vsock_probe_delay_secs = 15"

definition default_ca_ready_timeout_secs :: u64 where
  "default_ca_ready_timeout_secs = 15"

definition default_shutdown_grace_secs :: u64 where
  "default_shutdown_grace_secs = 3"

definition default_config :: config where
  "default_config =
     \<lparr>image_dir = default_image_dir,
      vm_cpus = default_vm_cpus,
      vm_mem_mb = default_vm_mem_mb,
      vsock_cid = default_vsock_cid,
      ca_binary = default_ca_binary,
      ca_port = default_ca_port,
      ca_admin_token = default_ca_admin_token,
      ca_log_level = default_ca_log_level,
      data_dir = default_data_dir,
      log_dir = default_log_dir,
      auto_start = default_auto_start,
      health_interval_secs = default_health_interval_secs,
      health_fail_threshold = default_health_fail_threshold,
      vm_boot_timeout_secs = default_vm_boot_timeout_secs,
      vsock_probe_delay_secs = default_vsock_probe_delay_secs,
      ca_ready_timeout_secs = default_ca_ready_timeout_secs,
      shutdown_grace_secs = default_shutdown_grace_secs\<rparr>"

lemmas default_defs = default_config_def
  default_image_dir_def
  default_vm_cpus_def
  default_vm_mem_mb_def
  default_vsock_cid_def
  default_ca_binary_def
  default_ca_port_def
  default_ca_admin_token_def
  default_ca_log_level_def
  default_data_dir_def
  default_log_dir_def
  default_auto_start_def
  default_health_interval_secs_def
  default_health_fail_threshold_def
  default_vm_boot_timeout_secs_def
  default_vsock_probe_delay_secs_def
  default_ca_ready_timeout_secs_def
  default_shutdown_grace_secs_def

section \<open>Deserialization\<close>

datatype 'v doc = DocMap "(string \<times> 'v) list" | DocOther "string + config"

record 'v serde =
  sd_parse :: "string \<Rightarrow> string + 'v doc"
  sd_string :: "'v \<Rightarrow> string + string"
  sd_u16 :: "'v \<Rightarrow> string + u16"
  sd_u32 :: "'v \<Rightarrow> string + u32"
  sd_u64 :: "'v \<Rightarrow> string + u64"
  sd_bool :: "'v \<Rightarrow> string + bool"
  sd_duplicate :: "string \<Rightarrow> string"

definition config_fields :: "string list" where
  "config_fields =
     [''image_dir'',
      ''vm_cpus'',
      ''vm_mem_mb'',
      ''vsock_cid'',
      ''ca_binary'',
      ''ca_port'',
      ''ca_admin_token'',
      ''ca_log_level'',
      ''data_dir'',
      ''log_dir'',
      ''auto_start'',
      ''health_interval_secs'',
      ''health_fail_threshold'',
      ''vm_boot_timeout_secs'',
      ''vsock_probe_delay_secs'',
      ''ca_ready_timeout_secs'',
      ''shutdown_grace_secs'']"

definition set_field :: "'v serde \<Rightarrow> string \<Rightarrow> 'v \<Rightarrow> config \<Rightarrow> string + config" where
  "set_field sd k v c =
     (if k = ''image_dir'' then map_sum id (\<lambda>x. c\<lparr>image_dir := x\<rparr>) (sd_string sd v)
      else if k = ''vm_cpus'' then map_sum id (\<lambda>x. c\<lparr>vm_cpus := x\<rparr>) (sd_u32 sd v)
      else if k = ''vm_mem_mb'' then map_sum id (\<lambda>x. c\<lparr>vm_mem_mb := x\<rparr>) (sd_u32 sd v)
      else if k = ''vsock_cid'' then map_sum id (\<lambda>x. c\<lparr>vsock_cid := x\<rparr>) (sd_u32 sd v)
      else if k = ''ca_binary'' then map_sum id (\<lambda>x. c\<lparr>ca_binary := x\<rparr>) (sd_string sd v)
      else if k = ''ca_port'' then map_sum id (\<lambda>x. c\<lparr>ca_port := x\<rparr>) (sd_u16 sd v)
      else if k = ''ca_admin_token'' then map_sum id (\<lambda>x. c\<lparr>ca_admin_token := x\<rparr>) (sd_string sd v)
      else if k = ''ca_log_level'' then map_sum id (\<lambda>x. c\<lparr>ca_log_level := x\<rparr>) (sd_string sd v)
      else if k = ''data_dir'' then map_sum id (\<lambda>x. c\<lparr>data_dir := x\<rparr>) (sd_string sd v)
      else if k = ''log_dir'' then map_sum id (\<lambda>x. c\<lparr>log_dir := x\<rparr>) (sd_string sd v)
      else if k = ''auto_start'' then map_sum id (\<lambda>x. c\<lparr>auto_start := x\<rparr>) (sd_bool sd v)
      else if k = ''health_interval_secs'' then map_sum id (\<lambda>x. c\<lparr>health_interval_secs := x\<rparr>) (sd_u64 sd v)
      else if k = ''health_fail_threshold'' then map_sum id (\<lambda>x. c\<lparr>health_fail_threshold := x\<rparr>) (sd_u32 sd v)
      else if k = ''vm_boot_timeout_secs'' then map_sum id (\<lambda>x. c\<lparr>vm_boot_timeout_secs := x\<rparr>) (sd_u64 sd v)
      else if k = ''vsock_probe_delay_secs'' then map_sum id (\<lambda>x. c\<lparr>vsock_probe_delay_secs := x\<rparr>) (sd_u64 sd v)
      else if k = ''ca_ready_timeout_secs'' then map_sum id (\<lambda>x. c\<lparr>ca_ready_timeout_secs := x\<rparr>) (sd_u64 sd v)
      else if k = ''shutdown_grace_secs'' then map_sum id (\<lambda>x. c\<lparr>shutdown_grace_secs := x\<rparr>) (sd_u64 sd v)
      else Inr c)"

fun config_visit_map ::
  "'v serde \<Rightarrow> string list \<Rightarrow> config \<Rightarrow> (string \<times> 'v) list \<Rightarrow> string + config" where
  "config_visit_map sd seen c [] = Inr c"
| "config_visit_map sd seen c ((k, v) # es) =
     (if k \<notin> set config_fields then config_visit_map sd seen c es
      else if k \<in> set seen then Inl (sd_duplicate sd k)
      else case set_field sd k v c of
        Inl err \<Rightarrow> Inl err
      | Inr c' \<Rightarrow> config_visit_map sd (k # seen) c' es)"

definition config_from_str :: "'v serde \<Rightarrow> string \<Rightarrow> string + config" where
  "config_from_str sd s =
     (case sd_parse sd s of
        Inl err \<Rightarrow> Inl err
      | Inr (DocMap es) \<Rightarrow> config_visit_map sd [] default_config es
      | Inr (DocOther r) \<Rightarrow> r)"

definition config_path :: path where
  "config_path = ''/data/teeproxy/teeproxyd.conf''"

definition load_with_warnings :: "'v serde \<Rightarrow> 'w os \<Rightarrow> 'w env \<Rightarrow> config \<times> 'w env" where
  "load_with_warnings sd os e =
     (let (present, e1) = path_exists os config_path e in
      if \<not> present then (default_config, e1)
      else case read_to_string os config_path e1 of
        (Inr content, e2) \<Rightarrow>
          (case config_from_str sd content of
             Inr config \<Rightarrow> (config, e2)
           | Inl _ \<Rightarrow> (default_config, e2))
      | (Inl _, e2) \<Rightarrow> (default_config, e2))"

section \<open>Reading a field by name\<close>

text \<open>The specification side: the value of a field, and what an entry decodes to.\<close>

datatype fval = FStr string | FU16 u16 | FU32 u32 | FU64 u64 | FBool bool

definition get_field :: "string \<Rightarrow> config \<Rightarrow> fval option" where
  "get_field k c =
     (if k = ''image_dir'' then Some (FStr (image_dir c))
      else if k = ''vm_cpus'' then Some (FU32 (vm_cpus c))
      else if k = ''vm_mem_mb'' then Some (FU32 (vm_mem_mb c))
      else if k = ''vsock_cid'' then Some (FU32 (vsock_cid c))
      else if k = ''ca_binary'' then Some (FStr (ca_binary c))
      else if k = ''ca_port'' then Some (FU16 (ca_port c))
      else if k = ''ca_admin_token'' then Some (FStr (ca_admin_token c))
      else if k = ''ca_log_level'' then Some (FStr (ca_log_level c))
      else if k = ''data_dir'' then Some (FStr (data_dir c))
      else if k = ''log_dir'' then Some (FStr (log_dir c))
      else if k = ''auto_start'' then Some (FBool (auto_start c))
      else if k = ''health_interval_secs'' then Some (FU64 (health_interval_secs c))
      else if k = ''health_fail_threshold'' then Some (FU32 (health_fail_threshold c))
      else if k = ''vm_boot_timeout_secs'' then Some (FU64 (vm_boot_timeout_secs c))
      else if k = ''vsock_probe_delay_secs'' then Some (FU64 (vsock_probe_delay_secs c))
      else if k = ''ca_ready_timeout_secs'' then Some (FU64 (ca_ready_timeout_secs c))
      else if k = ''shutdown_grace_secs'' then Some (FU64 (shutdown_grace_secs c))
      else None)"

definition decode_field :: "'v serde \<Rightarrow> string \<Rightarrow> 'v \<Rightarrow> string + fval" where
  "decode_field sd k v =
     (case get_field k default_config of
        Some (FStr _) \<Rightarrow> map_sum id FStr (sd_string sd v)
      | Some (FU16 _) \<Rightarrow> map_sum id FU16 (sd_u16 sd v)
      | Some (FU32 _) \<Rightarrow> map_sum id FU32 (sd_u32 sd v)
      | Some (FU64 _) \<Rightarrow> map_sum id FU64 (sd_u64 sd v)
      | Some (FBool _) \<Rightarrow> map_sum id FBool (sd_bool sd v)
      | None \<Rightarrow> Inl ''unknown field'')"

lemma get_field_known: "get_field k c \<noteq> None \<longleftrightarrow> k \<in> set config_fields"
  by (simp add: get_field_def config_fields_def)

text \<open>The seventeen names cover the record: two configurations that agree on them are equal.\<close>

lemma config_eqI:
  assumes "\<And>k. k \<in> set config_fields \<Longrightarrow> get_field k c = get_field k c'"
  shows "c = c'"
proof -
  have "\<forall>k \<in> set config_fields. get_field k c = get_field k c'" using assms by blast
  then show ?thesis by (cases c; cases c') (simp add: config_fields_def get_field_def)
qed

lemma map_sum_eq_Inr: "map_sum id f s = Inr y \<longleftrightarrow> (\<exists>x. s = Inr x \<and> y = f x)"
  by (cases s) auto

lemma set_field_decodes:
  assumes "k \<in> set config_fields"
  shows "(\<exists>c'. set_field sd k v c = Inr c') \<longleftrightarrow> (\<exists>x. decode_field sd k v = Inr x)"
  using assms unfolding config_fields_def list.set insert_iff empty_iff
  by (elim disjE FalseE; simp add: set_field_def decode_field_def get_field_def map_sum_eq_Inr)

lemma set_field_get:
  assumes "k \<in> set config_fields" and "set_field sd k v c = Inr c'"
  shows "\<exists>x. decode_field sd k v = Inr x \<and> get_field k c' = Some x"
  using assms unfolding config_fields_def list.set insert_iff empty_iff
  by (elim disjE FalseE; clarsimp simp: set_field_def decode_field_def get_field_def map_sum_eq_Inr)

lemma set_field_frame:
  assumes "k \<in> set config_fields" and "set_field sd k v c = Inr c'" and "k' \<noteq> k"
  shows "get_field k' c' = get_field k' c"
  using assms unfolding config_fields_def list.set insert_iff empty_iff
  by (elim disjE FalseE; clarsimp simp: set_field_def get_field_def map_sum_eq_Inr
        split del: if_split cong: if_cong)

section \<open>Properties\<close>

text \<open>
  A concrete deserializer for the witnesses: a document is given by its entries, and a value
  decodes to itself when it has the type asked for.
\<close>

definition sim_serde :: "(string \<times> fval) list \<Rightarrow> fval serde" where
  "sim_serde es =
     \<lparr>sd_parse = (\<lambda>s. if s = [] then Inl ''EOF while parsing a value'' else Inr (DocMap es)),
      sd_string = (\<lambda>v. case v of FStr s \<Rightarrow> Inr s | _ \<Rightarrow> Inl ''expected a string''),
      sd_u16 = (\<lambda>v. case v of FU16 n \<Rightarrow> Inr n | _ \<Rightarrow> Inl ''expected u16''),
      sd_u32 = (\<lambda>v. case v of FU32 n \<Rightarrow> Inr n | _ \<Rightarrow> Inl ''expected u32''),
      sd_u64 = (\<lambda>v. case v of FU64 n \<Rightarrow> Inr n | _ \<Rightarrow> Inl ''expected u64''),
      sd_bool = (\<lambda>v. case v of FBool b \<Rightarrow> Inr b | _ \<Rightarrow> Inl ''expected a boolean''),
      sd_duplicate = (\<lambda>k. ''duplicate field '' @ k)\<rparr>"

text \<open>A known key that occurs later in the entries decides its field; the others are kept.\<close>

lemma visit_map_get:
  assumes "config_visit_map sd seen c es = Inr c'" and "k \<in> set config_fields"
  shows "(case map_of es k of
            None \<Rightarrow> get_field k c' = get_field k c
          | Some v \<Rightarrow> \<exists>x. decode_field sd k v = Inr x \<and> get_field k c' = Some x)
         \<and> (k \<in> set seen \<longrightarrow> map_of es k = None)"
  using assms
proof (induction sd seen c es rule: config_visit_map.induct)
  case (1 sd seen c)
  then show ?case by simp
next
  case (2 sd seen c k' v es)
  show ?case
  proof (cases "k' \<in> set config_fields")
    case False
    then have "k \<noteq> k'" using "2.prems"(2) by auto
    then show ?thesis using 2 False by simp
  next
    case True
    with "2.prems"(1) obtain c1 where ns: "k' \<notin> set seen" and c1: "set_field sd k' v c = Inr c1"
      and rec: "config_visit_map sd (k' # seen) c1 es = Inr c'"
      by (auto split: if_splits sum.splits)
    note IH = "2.IH"(2) [OF _ ns c1 rec "2.prems"(2)]
    show ?thesis
    proof (cases "k = k'")
      case True
      then show ?thesis using IH ns set_field_get [OF \<open>k' \<in> set config_fields\<close> c1] \<open>k' \<in> set config_fields\<close>
        by auto
    next
      case False
      then show ?thesis
        using IH set_field_frame [OF \<open>k' \<in> set config_fields\<close> c1 False] \<open>k' \<in> set config_fields\<close>
        by (auto split: option.splits)
    qed
  qed
qed

lemma visit_map_ok_iff:
  "(\<exists>c'. config_visit_map sd seen c es = Inr c') \<longleftrightarrow>
     distinct (filter (\<lambda>k. k \<in> set config_fields) (map fst es)) \<and>
     set (map fst es) \<inter> set config_fields \<inter> set seen = {} \<and>
     (\<forall>(k, v) \<in> set es. k \<in> set config_fields \<longrightarrow> (\<exists>x. decode_field sd k v = Inr x))"
proof (induction sd seen c es rule: config_visit_map.induct)
  case (1 sd seen c)
  then show ?case by simp
next
  case (2 sd seen c k v es)
  show ?case
  proof (cases "k \<in> set config_fields \<and> k \<notin> set seen")
    case False
    then show ?thesis using 2 by auto
  next
    case True
    show ?thesis
    proof (cases "set_field sd k v c")
      case (Inl err)
      then have "\<nexists>x. decode_field sd k v = Inr x"
        using True set_field_decodes [of k sd v c] by auto
      then show ?thesis using True Inl by auto
    next
      case (Inr c1)
      then have "\<exists>x. decode_field sd k v = Inr x"
        using True set_field_decodes [of k sd v c] by blast
      then show ?thesis using True Inr 2 by auto
    qed
  qed
qed

text \<open>
  C35. Loading a configuration object: every field of the result has the value its entry
  decodes to, and the field's default when the object has no such entry.
\<close>

theorem config_from_str_fields:
  assumes "sd_parse sd s = Inr (DocMap es)" and "config_from_str sd s = Inr c"
    and "k \<in> set config_fields"
  shows "case map_of es k of
           None \<Rightarrow> get_field k c = get_field k default_config
         | Some v \<Rightarrow> \<exists>x. decode_field sd k v = Inr x \<and> get_field k c = Some x"
  using assms visit_map_get [of sd "[]" default_config es c k] by (simp add: config_from_str_def)

theorem config_from_str_fields_witness:
  "\<exists>c. config_from_str (sim_serde [(''vm_cpus'', FU32 4)]) ''{'' = Inr c \<and>
     get_field ''vm_cpus'' c = Some (FU32 4) \<and>
     get_field ''ca_port'' c = get_field ''ca_port'' default_config"
proof -
  let ?sd = "sim_serde [(''vm_cpus'', FU32 4)]"
  have p: "sd_parse ?sd ''{'' = Inr (DocMap [(''vm_cpus'', FU32 4)])" by (simp add: sim_serde_def)
  obtain c where c: "config_from_str ?sd ''{'' = Inr c"
    by (simp add: config_from_str_def sim_serde_def config_fields_def set_field_def)
  have k: "''vm_cpus'' \<in> set config_fields" "''ca_port'' \<in> set config_fields"
    by (simp_all add: config_fields_def)
  show ?thesis
    using config_from_str_fields [OF p c k(1)] config_from_str_fields [OF p c k(2)] c
    by (auto simp: decode_field_def get_field_def default_defs sim_serde_def)
qed

text \<open>
  C34. An object is accepted exactly when no known field occurs twice and every known field
  has a value of its type: one wrong field rejects the whole document, unknown keys never do.
\<close>

theorem config_from_str_accepts:
  assumes "sd_parse sd s = Inr (DocMap es)"
  shows "(\<exists>c. config_from_str sd s = Inr c) \<longleftrightarrow>
     distinct (filter (\<lambda>k. k \<in> set config_fields) (map fst es)) \<and>
     (\<forall>(k, v) \<in> set es. k \<in> set config_fields \<longrightarrow> (\<exists>x. decode_field sd k v = Inr x))"
  using assms visit_map_ok_iff [of sd "[]" default_config es] by (simp add: config_from_str_def)

theorem config_from_str_accepts_witness:
  "sd_parse (sim_serde [(''vm_cpus'', FStr ''not_a_number'')]) ''{'' =
      Inr (DocMap [(''vm_cpus'', FStr ''not_a_number'')]) \<and>
   \<not> (\<exists>c. config_from_str (sim_serde [(''vm_cpus'', FStr ''not_a_number'')]) ''{'' = Inr c)"
proof -
  let ?sd = "sim_serde [(''vm_cpus'', FStr ''not_a_number'')]"
  have p: "sd_parse ?sd ''{'' = Inr (DocMap [(''vm_cpus'', FStr ''not_a_number'')])"
    by (simp add: sim_serde_def)
  show ?thesis
    using p config_from_str_accepts [OF p]
    by (auto simp: config_fields_def decode_field_def get_field_def default_defs sim_serde_def)
qed

text \<open>
  C33. Round trip: the object that lists the fields of a configuration, in any order, loads
  to that configuration, for every encoder of field values the JSON library decodes.
\<close>

theorem config_roundtrip:
  assumes parse: "sd_parse sd s = Inr (DocMap (map (\<lambda>k. (k, enc (the (get_field k c)))) ks))"
    and perm: "distinct ks" "set ks = set config_fields"
    and enc: "\<And>k x. get_field k c = Some x \<Longrightarrow> decode_field sd k (enc x) = Inr x"
  shows "config_from_str sd s = Inr c"
proof -
  let ?es = "map (\<lambda>k. (k, enc (the (get_field k c)))) ks"
  have fst: "map fst ?es = ks" by (simp add: comp_def)
  have dec: "decode_field sd k (enc (the (get_field k c))) = Inr (the (get_field k c))"
    if "k \<in> set config_fields" for k
    using that enc [of k "the (get_field k c)"] get_field_known [of k c] by auto
  have "\<exists>c'. config_visit_map sd [] default_config ?es = Inr c'"
    unfolding visit_map_ok_iff fst using perm dec by auto
  then obtain c' where c': "config_visit_map sd [] default_config ?es = Inr c'" by blast
  have "get_field k c' = get_field k c" if k: "k \<in> set config_fields" for k
  proof -
    have "map_of ?es k = Some (enc (the (get_field k c)))"
      using k perm by (simp add: map_of_map_restrict restrict_map_def)
    then show ?thesis
      using visit_map_get [OF c' k] dec [OF k] get_field_known [of k c] k by auto
  qed
  then have "c' = c" by (rule config_eqI)
  then show ?thesis using parse c' by (simp add: config_from_str_def)
qed

theorem config_roundtrip_witness:
  "config_from_str
     (sim_serde (map (\<lambda>k. (k, the (get_field k default_config))) (rev config_fields))) ''{''
     = Inr default_config"
proof (rule config_roundtrip [where enc = "\<lambda>x. x" and ks = "rev config_fields"])
  show "distinct (rev config_fields)" by (simp add: config_fields_def)
next
  fix k x
  assume "get_field k default_config = Some x"
  then show "decode_field (sim_serde (map (\<lambda>k. (k, the (get_field k default_config))) (rev config_fields)))
      k x = Inr x"
    by (auto simp: decode_field_def sim_serde_def split: fval.splits)
qed (simp_all add: sim_serde_def)

text \<open>
  The daemon always gets a configuration: the defaults when the file is absent,
  unreadable, not UTF-8 or rejected by the deserializer, and otherwise what the file says.
  Nothing but the existence check and one read is done.
\<close>

theorem load_with_warnings_result:
  "fst (load_with_warnings sd os e) =
     (let present = fst (path_exists os config_path e);
          content = fst (read_to_string os config_path (snd (path_exists os config_path e)))
      in case (present, content) of
           (True, Inr text) \<Rightarrow>
             (case config_from_str sd text of Inr c \<Rightarrow> c | Inl _ \<Rightarrow> default_config)
         | _ \<Rightarrow> default_config)
   \<and> (\<exists>evs. trace (snd (load_with_warnings sd os e)) = trace e @ evs \<and> length evs \<le> 2)"
proof -
  obtain b e1 where p: "path_exists os config_path e = (b, e1)" by fastforce
  obtain r e2 where r: "read_to_string os config_path e1 = (r, e2)" by fastforce
  have t1: "\<exists>ev. trace e1 = trace e @ [ev]"
    using sys_facts(1) [OF p [unfolded path_exists_def]] by simp
  have t2: "\<exists>ev. trace e2 = trace e1 @ [ev]"
    using r sys_simps(5) [of "os_read_file os config_path" "\<lambda>r. [EvReadFile config_path r]" e1]
    by (auto simp: read_to_string_def split: prod.splits sum.splits)
  show ?thesis using p r t1 t2
    by (auto simp: load_with_warnings_def Let_def split: sum.splits)
qed

end
