(* ===== verification/Supervisor.thy ===== *)
theory Supervisor
  imports Process Config
begin

text \<open>
  The contract \<open>VmManager\<close> (src/src/vm.rs) and \<open>CaManager\<close> (src/src/ca.rs) share: a
  supervised child process with its pid, a crash counter and the time since which it is
  ready. The startup machine, the IPC handlers and the main loop rely on these laws only; the
  theories \<open>Vm\<close> and \<open>Ca\<close> discharge them for the two managers.
\<close>

locale supervised =
  fixes init_mgr :: "'m"
    and child_pid :: "'m \<Rightarrow> pid option"
    and down :: "'m \<Rightarrow> bool"
    and crash_count :: "'m \<Rightarrow> u32"
    and ready_since :: "'m \<Rightarrow> instant option"
    and owns_pid :: "'m \<Rightarrow> pid \<Rightarrow> bool"
    and is_dead :: "'w os \<Rightarrow> 'm \<Rightarrow> 'w env \<Rightarrow> bool \<times> 'w env"
    and mark_dead :: "'m \<Rightarrow> 'm"
    and set_error :: "'w os \<Rightarrow> 'm \<Rightarrow> 'w env \<Rightarrow> 'm \<times> 'w env"
    and set_ready :: "'w os \<Rightarrow> 'm \<Rightarrow> 'w env \<Rightarrow> 'm \<times> 'w env"
    and start :: "config \<Rightarrow> 'w os \<Rightarrow> 'm \<Rightarrow> 'w env \<Rightarrow> (string + unit) \<times> 'm \<times> 'w env"
    and stop :: "config \<Rightarrow> 'w os \<Rightarrow> 'm \<Rightarrow> 'w env \<Rightarrow> ('m \<times> 'w env) option"
    and maybe_reset :: "'w os \<Rightarrow> 'm \<Rightarrow> 'w env \<Rightarrow> 'm \<times> 'w env"
  assumes init_down: "down init_mgr" "child_pid init_mgr = None" "crash_count init_mgr = 0"
      "ready_since init_mgr = None"
    and owns_iff: "owns_pid m p \<longleftrightarrow> child_pid m = Some p"
    and is_dead_needs_pid: "\<not> down m \<or> child_pid m = None \<Longrightarrow> is_dead os m e = (False, e)"
    and mark_dead_laws: "down (mark_dead m)" "child_pid (mark_dead m) = None"
      "crash_count (mark_dead m) = crash_count m + 1" "ready_since (mark_dead m) = None"
    and set_error_laws: "set_error os m e = (m', e') \<Longrightarrow>
      down m' \<and> child_pid m' = child_pid m \<and> crash_count m' = crash_count m
      \<and> ready_since m' = ready_since m \<and> e' = e"
    and set_ready_laws: "set_ready os m e = (m', e') \<Longrightarrow>
      \<not> down m' \<and> child_pid m' = child_pid m \<and> crash_count m' = crash_count m
      \<and> ready_since m' = Some (clock e') \<and> op_le e e'"
    and start_ok: "start cfg os m e = (Inr (), m', e') \<Longrightarrow>
      \<not> down m' \<and> child_pid m' \<noteq> None \<and> crash_count m' = crash_count m
      \<and> ready_since m' = ready_since m \<and> op_le e e'"
    and start_err: "start cfg os m e = (Inl err, m', e') \<Longrightarrow>
      (m' = m \<or> \<not> down m') \<and> child_pid m' = child_pid m \<and> crash_count m' = crash_count m
      \<and> ready_since m' = ready_since m \<and> op_le e e'"
    and stop_laws: "stop cfg os m e = Some (m', e') \<Longrightarrow>
      down m' \<and> child_pid m' = None \<and> crash_count m' = crash_count m
      \<and> ready_since m' = None \<and> op_le e e'"
    and maybe_reset_laws: "maybe_reset os m e = (m', e') \<Longrightarrow>
      down m' = down m \<and> child_pid m' = child_pid m \<and> ready_since m' = ready_since m
      \<and> op_le e e' \<and> (crash_count m' = crash_count m \<or>
        crash_count m' = 0 \<and>
        (\<exists>since. ready_since m = Some since \<and> 60 * ns_per_sec \<le> elapsed (clock e') since))"
begin

text \<open>The invariant: a manager that is down has no child.\<close>

definition mgr_inv :: "'m \<Rightarrow> bool" where
  "mgr_inv m \<longleftrightarrow> (down m \<longrightarrow> child_pid m = None)"

lemma mgr_inv_init: "mgr_inv init_mgr"
  by (simp add: mgr_inv_def init_down)

lemma mgr_inv_mark_dead: "mgr_inv (mark_dead m)"
  by (simp add: mgr_inv_def mark_dead_laws)

text \<open>The code enters the error state only on a manager it has just marked dead.\<close>

lemma mgr_inv_set_error: "child_pid m = None \<Longrightarrow> set_error os m e = (m', e') \<Longrightarrow> mgr_inv m'"
  by (auto simp: mgr_inv_def dest: set_error_laws)

lemma mgr_inv_set_ready: "set_ready os m e = (m', e') \<Longrightarrow> mgr_inv m'"
  by (auto simp: mgr_inv_def dest: set_ready_laws)

lemma mgr_inv_start: "mgr_inv m \<Longrightarrow> start cfg os m e = (r, m', e') \<Longrightarrow> mgr_inv m'"
  by (cases r) (auto simp: mgr_inv_def dest: start_ok start_err)

lemma mgr_inv_stop: "stop cfg os m e = Some (m', e') \<Longrightarrow> mgr_inv m'"
  by (auto simp: mgr_inv_def dest: stop_laws)

lemma mgr_inv_maybe_reset: "mgr_inv m \<Longrightarrow> maybe_reset os m e = (m', e') \<Longrightarrow> mgr_inv m'"
  by (auto simp: mgr_inv_def dest: maybe_reset_laws)

lemmas mgr_inv_ops = mgr_inv_init mgr_inv_mark_dead mgr_inv_set_error mgr_inv_set_ready
  mgr_inv_start mgr_inv_stop mgr_inv_maybe_reset

text \<open>Under the invariant the test for a dead child is false and makes no call.\<close>

lemma is_dead_never: "mgr_inv m \<Longrightarrow> is_dead os m e = (False, e)"
  by (auto simp: mgr_inv_def intro: is_dead_needs_pid)

text \<open>A child that was stopped or whose death was recorded is no longer owned.\<close>

lemma stop_disowns: "stop cfg os m e = Some (m', e') \<Longrightarrow> \<not> owns_pid m' p"
  by (auto simp: owns_iff dest: stop_laws)

lemma mark_dead_disowns: "\<not> owns_pid (mark_dead m) p"
  by (simp add: owns_iff mark_dead_laws)

text \<open>Starting leaves the crash counter and the ready time alone.\<close>

lemma crash_start: "start cfg os m e = (r, m', e') \<Longrightarrow> crash_count m' = crash_count m"
  by (cases r) (auto dest: start_ok start_err)

lemma since_start: "start cfg os m e = (r, m', e') \<Longrightarrow> ready_since m' = ready_since m"
  by (cases r) (auto dest: start_ok start_err)

end

end
