(* ===== verification/Vm.thy ===== *)
theory Vm
  imports Supervisor
begin

text \<open>
  \<open>VmManager\<close> of src/src/vm.rs. The borrowed configuration of the struct is the argument
  \<open>cfg\<close> of the operations that read it.
\<close>

section \<open>State and operations\<close>

datatype vm_state = Vm_Idle | Vm_Starting | Vm_Booting | Vm_Ready | Vm_Stopping | Vm_Error

record vm_manager =
  vm_state :: vm_state
  vm_child_pid :: "pid option"
  vm_crash_count :: u32
  vm_ready_since :: "instant option"

definition vm_new :: vm_manager where
  "vm_new = \<lparr>vm_state = Vm_Idle, vm_child_pid = None, vm_crash_count = 0, vm_ready_since = None\<rparr>"

definition vm_set_state :: "'w os \<Rightarrow> vm_state \<Rightarrow> vm_manager \<Rightarrow> 'w env \<Rightarrow> vm_manager \<times> 'w env" where
  "vm_set_state os s m e =
     (let m1 = m\<lparr>vm_state := s\<rparr> in
      if s = Vm_Ready then
        let (now, e1) = instant_now os e in (m1\<lparr>vm_ready_since := Some now\<rparr>, e1)
      else (m1, e))"

definition vm_owns_pid :: "vm_manager \<Rightarrow> pid \<Rightarrow> bool" where
  "vm_owns_pid m p \<longleftrightarrow> vm_child_pid m = Some p"

definition vm_is_dead :: "'w os \<Rightarrow> vm_manager \<Rightarrow> 'w env \<Rightarrow> bool \<times> 'w env" where
  "vm_is_dead os m e =
     (if vm_state m = Vm_Idle \<or> vm_state m = Vm_Error then
        (case vm_child_pid m of
           None \<Rightarrow> (False, e)
         | Some p \<Rightarrow> (let (alive, e1) = is_alive os p e in (\<not> alive, e1)))
      else (False, e))"

definition vm_mark_dead :: "vm_manager \<Rightarrow> vm_manager" where
  "vm_mark_dead m =
     m\<lparr>vm_crash_count := vm_crash_count m + 1, vm_child_pid := None, vm_state := Vm_Idle,
       vm_ready_since := None\<rparr>"

definition vm_maybe_reset_crash_count ::
  "'w os \<Rightarrow> vm_manager \<Rightarrow> 'w env \<Rightarrow> vm_manager \<times> 'w env" where
  "vm_maybe_reset_crash_count os m e =
     (case vm_ready_since m of
        None \<Rightarrow> (m, e)
      | Some since \<Rightarrow>
          (let (now, e1) = instant_now os e in
           if 60 * ns_per_sec \<le> elapsed now since then (m\<lparr>vm_crash_count := 0\<rparr>, e1) else (m, e1)))"

definition required_images :: "string list" where
  "required_images = [''pvm-manage'', ''crosvm'', ''custom_pvmfw'', ''kernel.bin'', ''disk.img'']"

definition sized_images :: "string list" where
  "sized_images = [''kernel.bin'', ''disk.img'']"

definition min_image_bytes :: u64 where
  "min_image_bytes = 1000000"

fun check_present :: "'w os \<Rightarrow> path \<Rightarrow> string list \<Rightarrow> 'w env \<Rightarrow> (string + unit) \<times> 'w env" where
  "check_present os dir [] e = (Inr (), e)"
| "check_present os dir (name # names) e =
     (let (present, e1) = path_exists os (path_join dir name) e in
      if \<not> present then (Inl (name @ '' not found in '' @ dir), e1)
      else check_present os dir names e1)"

fun check_sizes :: "'w os \<Rightarrow> path \<Rightarrow> string list \<Rightarrow> 'w env \<Rightarrow> (string + unit) \<times> 'w env" where
  "check_sizes os dir [] e = (Inr (), e)"
| "check_sizes os dir (name # names) e =
     (case metadata_len os (path_join dir name) e of
        (Inl err, e1) \<Rightarrow> (Inl (''stat '' @ name @ '': '' @ err_text err), e1)
      | (Inr len, e1) \<Rightarrow>
          if len < min_image_bytes
          then (Inl (name @ '' too small ('' @ dec (unat len) @ ''B)''), e1)
          else check_sizes os dir names e1)"

definition validate_images :: "config \<Rightarrow> 'w os \<Rightarrow> 'w env \<Rightarrow> (string + unit) \<times> 'w env" where
  "validate_images cfg os e =
     (case check_present os (image_dir cfg) required_images e of
        (Inl err, e1) \<Rightarrow> (Inl err, e1)
      | (Inr _, e1) \<Rightarrow> check_sizes os (image_dir cfg) sized_images e1)"

definition vm_args :: "config \<Rightarrow> string list" where
  "vm_args cfg =
     [''run'', ''--protected-vm-with-pvmfw'', ''--'',
      ''--cpus'', dec (unat (vm_cpus cfg)),
      ''--mem'', ''size='' @ dec (unat (vm_mem_mb cfg)),
      ''--block'', ''disk.img'',
      ''--cid'', dec (unat (vsock_cid cfg)),
      ''kernel.bin'']"

definition vm_start ::
  "config \<Rightarrow> 'w os \<Rightarrow> vm_manager \<Rightarrow> 'w env \<Rightarrow> (string + unit) \<times> vm_manager \<times> 'w env" where
  "vm_start cfg os m e =
     (case validate_images cfg os e of
        (Inl err, e1) \<Rightarrow> (Inl err, m, e1)
      | (Inr _, e1) \<Rightarrow>
          let m1 = m\<lparr>vm_state := Vm_Starting\<rparr> in
          (case spawn_with_log os (path_join (image_dir cfg) ''pvm-manage'') (vm_args cfg)
                  [(''HOME'', image_dir cfg)] (path_join (log_dir cfg) ''pvm.log'')
                  (Some (image_dir cfg)) e1 of
             (Inl err, e2) \<Rightarrow> (Inl (''spawn pvm-manage: '' @ err_text err), m1, e2)
           | (Inr p, e2) \<Rightarrow>
               (Inr (), m1\<lparr>vm_child_pid := Some p, vm_state := Vm_Booting\<rparr>, e2)))"

definition pkill_crosvm :: command where
  "pkill_crosvm = pkill [''-9'', ''-f'', ''crosvm'']"

definition vm_stop :: "config \<Rightarrow> 'w os \<Rightarrow> vm_manager \<Rightarrow> 'w env \<Rightarrow> (vm_manager \<times> 'w env) option" where
  "vm_stop cfg os m e =
     (let m1 = m\<lparr>vm_state := Vm_Stopping\<rparr> in do {
        (m2, e2) \<leftarrow>
          (case vm_child_pid m1 of
             None \<Rightarrow> Some (m1, e)
           | Some p \<Rightarrow> do {
               let m2 = m1\<lparr>vm_child_pid := None\<rparr>;
               (_, e1) \<leftarrow> graceful_kill os p (shutdown_grace_secs cfg) e;
               let e2 = kill_tree os p SIGKILL e1;
               let (_, e3) = run_command os pkill_crosvm e2;
               Some (m2, e3)
             });
        Some (m2\<lparr>vm_state := Vm_Idle, vm_ready_since := None\<rparr>, e2)
      })"

definition vsock_test :: "config \<Rightarrow> command" where
  "vsock_test cfg =
     \<lparr>c_prog = ca_binary cfg, c_args = [''vsock-test'', dec (unat (vsock_cid cfg)), ''9999''],
      c_env = [(''VSOCK_CID'', dec (unat (vsock_cid cfg)))], c_log = None, c_cwd = None\<rparr>"

definition probe_vsock :: "config \<Rightarrow> 'w os \<Rightarrow> 'w env \<Rightarrow> bool \<times> 'w env" where
  "probe_vsock cfg os e = run_command os (vsock_test cfg) e"

section \<open>Frames\<close>

lemma vm_set_state_env [env_mono]: "op_le e (snd (vm_set_state os s m e))"
  using call_op_le(18) [of e os] by (simp add: vm_set_state_def case_prod_beta Let_def)

lemma vm_maybe_reset_env [env_mono]: "op_le e (snd (vm_maybe_reset_crash_count os m e))"
  using call_op_le(18) [of e os]
  by (simp add: vm_maybe_reset_crash_count_def case_prod_beta Let_def split: option.split)

lemma check_present_env: "op_le e (snd (check_present os dir ns e))"
proof (induction ns arbitrary: e)
  case (Cons n ns)
  show ?case
    using Cons [of "snd (path_exists os (path_join dir n) e)"] call_op_le(4) [of e os "path_join dir n"]
    by (auto simp: case_prod_beta intro: op_le_trans)
qed simp

lemma check_sizes_env: "op_le e (snd (check_sizes os dir ns e))"
proof (induction ns arbitrary: e)
  case (Cons n ns)
  show ?case
    using Cons [of "snd (metadata_len os (path_join dir n) e)"] call_op_le(5) [of e os "path_join dir n"]
    by (auto simp: case_prod_beta split: sum.split intro: op_le_trans)
qed simp

lemma validate_images_env [env_mono]: "op_le e (snd (validate_images cfg os e))"
  using check_present_env [of e os "image_dir cfg" required_images]
    check_sizes_env [of "snd (check_present os (image_dir cfg) required_images e)" os "image_dir cfg"
      sized_images]
  by (auto simp: validate_images_def case_prod_beta split: sum.split intro: op_le_trans)

lemma vm_start_cases:
  assumes "vm_start cfg os m e = (r, m', e')"
  obtains
    (invalid) err where "validate_images cfg os e = (Inl err, e')" "r = Inl err" "m' = m"
  | (failed) e1 err where "validate_images cfg os e = (Inr (), e1)"
      "spawn_with_log os (path_join (image_dir cfg) ''pvm-manage'') (vm_args cfg)
         [(''HOME'', image_dir cfg)] (path_join (log_dir cfg) ''pvm.log'')
         (Some (image_dir cfg)) e1 = (Inl err, e')"
      "r = Inl (''spawn pvm-manage: '' @ err_text err)" "m' = m\<lparr>vm_state := Vm_Starting\<rparr>"
  | (started) e1 p where "validate_images cfg os e = (Inr (), e1)"
      "spawn_with_log os (path_join (image_dir cfg) ''pvm-manage'') (vm_args cfg)
         [(''HOME'', image_dir cfg)] (path_join (log_dir cfg) ''pvm.log'')
         (Some (image_dir cfg)) e1 = (Inr p, e')"
      "r = Inr ()" "m' = m\<lparr>vm_state := Vm_Booting, vm_child_pid := Some p\<rparr>"
  using assms
  by (auto simp: vm_start_def Let_def split: prod.splits sum.splits)

lemma vm_start_env:
  assumes "vm_start cfg os m e = (r, m', e')"
  shows "op_le e e'"
  using assms
proof (cases rule: vm_start_cases)
  case invalid
  then show ?thesis using validate_images_env [of e cfg os] by simp
next
  case failed
  then show ?thesis
    using op_le_trans [OF validate_images_env [of e cfg os] spawn_with_log_env] by (metis snd_conv)
next
  case started
  then show ?thesis
    using op_le_trans [OF validate_images_env [of e cfg os] spawn_with_log_env] by (metis snd_conv)
qed

lemma vm_stop_cases:
  assumes "vm_stop cfg os m e = Some (m', e')"
  obtains
    (idle) "vm_child_pid m = None" "e' = e" "m' = m\<lparr>vm_state := Vm_Idle, vm_ready_since := None\<rparr>"
  | (killed) p r e1 where "vm_child_pid m = Some p"
      "graceful_kill os p (shutdown_grace_secs cfg) e = Some (r, e1)"
      "e' = snd (run_command os pkill_crosvm (kill_tree os p SIGKILL e1))"
      "m' = m\<lparr>vm_state := Vm_Idle, vm_child_pid := None, vm_ready_since := None\<rparr>"
  using assms
  by (auto simp: vm_stop_def Let_def case_prod_beta split: option.splits elim!: bind_SomeE)

lemma vm_stop_env:
  assumes "vm_stop cfg os m e = Some (m', e')"
  shows "op_le e e'"
  using assms
proof (cases rule: vm_stop_cases)
  case (killed p r e1)
  have "op_le e e1" by (rule graceful_kill_env [OF killed(2)])
  also have "op_le e1 (kill_tree os p SIGKILL e1)" by (rule kill_tree_env)
  also have "op_le (kill_tree os p SIGKILL e1) e'" unfolding killed(3) by (rule call_op_le(3))
  finally show ?thesis .
qed simp

section \<open>The manager meets the supervisor contract\<close>

interpretation vms: supervised vm_new vm_child_pid
  "\<lambda>m. vm_state m = Vm_Idle \<or> vm_state m = Vm_Error" vm_crash_count vm_ready_since vm_owns_pid
  vm_is_dead vm_mark_dead "\<lambda>os. vm_set_state os Vm_Error" "\<lambda>os. vm_set_state os Vm_Ready"
  vm_start vm_stop vm_maybe_reset_crash_count
proof (unfold_locales, goal_cases)
  case (11 os m e m' e')
  then show ?case by (auto simp: vm_set_state_def)
next
  case (12 os m e m' e')
  then show ?case
    using vm_set_state_env [of e os Vm_Ready m] instant_now_fst [of os e]
    by (auto simp: vm_set_state_def Let_def case_prod_beta)
next
  case (13 cfg os m e m' e')
  then show ?case using vm_start_env [OF 13] by (auto elim!: vm_start_cases)
next
  case (14 cfg os m e err m' e')
  then show ?case using vm_start_env [OF 14] by (auto elim!: vm_start_cases)
next
  case (15 cfg os m e m' e')
  then show ?case using vm_stop_env [OF 15] by (auto elim!: vm_stop_cases)
next
  case (16 os m e m' e')
  then show ?case
    using vm_maybe_reset_env [of e os m] instant_now_fst [of os e]
    by (auto simp: vm_maybe_reset_crash_count_def case_prod_beta split: option.splits if_splits)
qed (auto simp: vm_new_def vm_owns_pid_def vm_is_dead_def vm_mark_dead_def split: option.split)

text \<open>The invariant of the contract, spelled out for this manager.\<close>

definition vm_inv :: "vm_manager \<Rightarrow> bool" where
  "vm_inv m \<longleftrightarrow> (vm_state m = Vm_Idle \<or> vm_state m = Vm_Error \<longrightarrow> vm_child_pid m = None)"

lemma vm_inv_iff: "vms.mgr_inv m \<longleftrightarrow> vm_inv m"
  by (simp add: vms.mgr_inv_def vm_inv_def)

lemmas vm_inv_ops = vms.mgr_inv_ops [unfolded vm_inv_iff]

lemmas vm_is_dead_never = vms.is_dead_never [unfolded vm_inv_iff]

section \<open>Properties\<close>

text \<open>
  What the code relies on of the file system while it validates: \<open>exists\<close> and
  \<open>metadata\<close> agree with one assignment of sizes to paths.
\<close>

definition fs_view :: "'w os \<Rightarrow> (path \<Rightarrow> u64 option) \<Rightarrow> bool" where
  "fs_view os F \<longleftrightarrow>
     (\<forall>w p. fst (os_exists os p w) = (F p \<noteq> None) \<and>
       (\<forall>n. F p = Some n \<longrightarrow> fst (os_metadata os p w) = Inr n))"

lemma check_present_result:
  assumes "fs_view os F"
  shows "fst (check_present os dir ns e) =
    (case find (\<lambda>n. F (path_join dir n) = None) ns of
       None \<Rightarrow> Inr ()
     | Some n \<Rightarrow> Inl (n @ '' not found in '' @ dir))"
  using assms
  by (induction ns arbitrary: e)
    (auto simp: fs_view_def path_exists_def env_simps case_prod_beta)

lemma check_sizes_result:
  assumes "fs_view os F" and "\<forall>n \<in> set ns. F (path_join dir n) \<noteq> None"
  shows "fst (check_sizes os dir ns e) =
    (case find (\<lambda>n. the (F (path_join dir n)) < min_image_bytes) ns of
       None \<Rightarrow> Inr ()
     | Some n \<Rightarrow> Inl (n @ '' too small ('' @ dec (unat (the (F (path_join dir n)))) @ ''B)''))"
  using assms
  by (induction ns arbitrary: e)
    (auto simp: fs_view_def metadata_len_def env_simps case_prod_beta split: sum.split)

lemma validate_images_view:
  assumes "fs_view os F"
  shows "fst (validate_images cfg os e) =
    (case find (\<lambda>n. F (path_join (image_dir cfg) n) = None) required_images of
       Some n \<Rightarrow> Inl (n @ '' not found in '' @ image_dir cfg)
     | None \<Rightarrow>
         (case find (\<lambda>n. the (F (path_join (image_dir cfg) n)) < min_image_bytes) sized_images of
            Some n \<Rightarrow> Inl (n @ '' too small ('' @
                        dec (unat (the (F (path_join (image_dir cfg) n)))) @ ''B)'')
          | None \<Rightarrow> Inr ()))"
proof -
  let ?dir = "image_dir cfg"
  obtain r e1 where c: "check_present os ?dir required_images e = (r, e1)" by fastforce
  have r: "r = (case find (\<lambda>n. F (path_join ?dir n) = None) required_images of
       None \<Rightarrow> Inr () | Some n \<Rightarrow> Inl (n @ '' not found in '' @ ?dir))"
    using check_present_result [OF assms, of ?dir required_images e] c by simp
  show ?thesis
  proof (cases "find (\<lambda>n. F (path_join ?dir n) = None) required_images")
    case None
    then have "\<forall>n \<in> set sized_images. F (path_join ?dir n) \<noteq> None"
      unfolding find_None_iff by (auto simp: sized_images_def required_images_def)
    from check_sizes_result [OF assms this, of e1] None r c show ?thesis
      by (simp add: validate_images_def split: option.split)
  next
    case (Some n)
    then show ?thesis using r c by (simp add: validate_images_def)
  qed
qed

text \<open>
  C26. Image validation over a consistent file system: it reports the first of the five
  images that is missing, else the first of kernel and disk below 1 MB with its size, and
  succeeds exactly when there is neither.
\<close>

theorem validate_images_result:
  assumes "fs_view os F"
  shows "fst (validate_images cfg os e) =
    (case find (\<lambda>n. F (path_join (image_dir cfg) n) = None) required_images of
       Some n \<Rightarrow> Inl (n @ '' not found in '' @ image_dir cfg)
     | None \<Rightarrow>
         (case find (\<lambda>n. the (F (path_join (image_dir cfg) n)) < 1000000) sized_images of
            Some n \<Rightarrow> Inl (n @ '' too small ('' @
                        dec (unat (the (F (path_join (image_dir cfg) n)))) @ ''B)'')
          | None \<Rightarrow> Inr ()))"
  by (rule validate_images_view [OF assms, unfolded min_image_bytes_def])

theorem validate_images_result_witness:
  "fs_view (sim_os_fs (\<lambda>p. if p = ''/data/teeproxy/vm/crosvm'' then None else Some 5))
      (\<lambda>p. if p = ''/data/teeproxy/vm/crosvm'' then None else Some 5) \<and>
   fst (validate_images default_config
      (sim_os_fs (\<lambda>p. if p = ''/data/teeproxy/vm/crosvm'' then None else Some 5))
      (sim_env sim_world)) = Inl ''crosvm not found in /data/teeproxy/vm''"
proof -
  let ?F = "\<lambda>p :: path. if p = ''/data/teeproxy/vm/crosvm'' then None else Some (5 :: u64)"
  have v: "fs_view (sim_os_fs ?F) ?F" by (auto simp: fs_view_def sim_defs)
  then show ?thesis
    using validate_images_result [OF v, of default_config "sim_env sim_world"]
    by (simp add: required_images_def default_defs path_join_def)
qed

lemma validate_images_quiet [quiet_intros]: "quiet e (snd (validate_images cfg os e))"
proof -
  have p: "quiet e (snd (check_present os dir ns e))" for dir ns e
  proof (induction ns arbitrary: e)
    case (Cons n ns)
    show ?case using quiet_trans [OF quiet_calls(1) Cons] by (auto simp: case_prod_beta quiet_calls)
  qed simp
  have s: "quiet e (snd (check_sizes os dir ns e))" for dir ns e
  proof (induction ns arbitrary: e)
    case (Cons n ns)
    show ?case using quiet_trans [OF quiet_calls(2) Cons]
      by (auto simp: case_prod_beta quiet_calls split: sum.split)
  qed simp
  show ?thesis using p quiet_trans [OF p s]
    by (auto simp: validate_images_def case_prod_beta split: sum.split)
qed

definition vm_command :: "config \<Rightarrow> command" where
  "vm_command cfg =
     \<lparr>c_prog = path_join (image_dir cfg) ''pvm-manage'', c_args = vm_args cfg,
      c_env = [(''HOME'', image_dir cfg)], c_log = Some (path_join (log_dir cfg) ''pvm.log''),
      c_cwd = Some (image_dir cfg)\<rparr>"

lemma vm_start_effect:
  assumes "vm_start cfg os m e = (r, m', e')"
  shows "\<exists>evs. trace e' = trace e @ evs \<and> sent_signals evs = [] \<and> commands evs = [] \<and>
    (case r of
       Inr _ \<Rightarrow> (\<exists>p. spawned evs = [(vm_command cfg, Inr p)] \<and>
                   m' = m\<lparr>vm_state := Vm_Booting, vm_child_pid := Some p\<rparr>)
     | Inl _ \<Rightarrow> (if \<exists>err. fst (validate_images cfg os e) = Inl err
                then spawned evs = [] \<and> m' = m
                else m' = m\<lparr>vm_state := Vm_Starting\<rparr> \<and>
                     (spawned evs = [] \<or> (\<exists>err. spawned evs = [(vm_command cfg, Inl err)]))))"
  using assms
proof (cases rule: vm_start_cases)
  case invalid
  then show ?thesis using validate_images_quiet [of e cfg os] by (auto simp: quiet_def)
next
  case (failed e1 err)
  from validate_images_quiet [of e cfg os] failed(1) obtain evs1 where
    "trace e1 = trace e @ evs1" "spawned evs1 = []" "sent_signals evs1 = []" "commands evs1 = []"
    by (auto simp: quiet_def)
  then show ?thesis using failed spawn_with_log_effect [OF failed(2)]
    by (auto simp: vm_command_def)
next
  case (started e1 p)
  from validate_images_quiet [of e cfg os] started(1) obtain evs1 where
    "trace e1 = trace e @ evs1" "spawned evs1 = []" "sent_signals evs1 = []" "commands evs1 = []"
    by (auto simp: quiet_def)
  then show ?thesis using started spawn_with_log_effect [OF started(2)]
    by (auto simp: vm_command_def)
qed

text \<open>
  C24. Starting the VM. Whatever is started is \<open>pvm-manage\<close> of the image directory with
  the configured CPUs, memory and vsock CID, run in that directory. On success exactly one
  process was started, the manager owns its pid and is booting. On failure the owned pid,
  the crash counter and the ready time are what they were; when validation failed nothing was
  started and the manager is unchanged.
\<close>

theorem vm_start_result:
  assumes "vm_start cfg os m e = (r, m', e')"
  shows "\<exists>evs. trace e' = trace e @ evs \<and> sent_signals evs = [] \<and>
    (\<forall>(c, x) \<in> set (spawned evs). c_prog c = path_join (image_dir cfg) ''pvm-manage'' \<and>
       c_args c = [''run'', ''--protected-vm-with-pvmfw'', ''--'', ''--cpus'', dec (unat (vm_cpus cfg)),
         ''--mem'', ''size='' @ dec (unat (vm_mem_mb cfg)), ''--block'', ''disk.img'',
         ''--cid'', dec (unat (vsock_cid cfg)), ''kernel.bin''] \<and>
       c_cwd c = Some (image_dir cfg)) \<and>
    (case r of
       Inr _ \<Rightarrow> (\<exists>c p. spawned evs = [(c, Inr p)] \<and>
                   m' = m\<lparr>vm_state := Vm_Booting, vm_child_pid := Some p\<rparr>)
     | Inl _ \<Rightarrow> (if \<exists>err. fst (validate_images cfg os e) = Inl err
                then spawned evs = [] \<and> m' = m
                else m' = m\<lparr>vm_state := Vm_Starting\<rparr> \<and>
                     (\<forall>(c, x) \<in> set (spawned evs). \<exists>err. x = Inl err)))"
  using vm_start_effect [OF assms]
  by (auto simp: vm_command_def vm_args_def split: sum.splits if_splits)

theorem vm_start_result_witness:
  "\<exists>m' e' evs. vm_start default_config (sim_os_fs (\<lambda>_. Some 2000000)) vm_new (sim_env sim_world)
       = (Inr (), m', e') \<and>
     trace e' = trace (sim_env sim_world) @ evs \<and> sent_signals evs = [] \<and>
     (\<exists>c p. spawned evs = [(c, Inr p)] \<and>
        m' = vm_new\<lparr>vm_state := Vm_Booting, vm_child_pid := Some p\<rparr>)"
proof -
  let ?os = "sim_os_fs (\<lambda>_. Some 2000000)"
  obtain m' e' where s: "vm_start default_config ?os vm_new (sim_env sim_world) = (Inr (), m', e')"
    by (simp add: vm_start_def validate_images_def required_images_def sized_images_def
        min_image_bytes_def spawn_with_log_def rotate_if_needed_def max_log_bytes_def sim_eval)
  then show ?thesis using vm_start_result [OF s] by auto
qed

text \<open>
  What stopping a VM leaves in the trace: a graceful kill of its process, then SIGKILL to it,
  to its children (by \<open>pkill -P\<close>) and to every process whose command line mentions
  \<open>crosvm\<close>.
\<close>

definition vm_stopped :: "config \<Rightarrow> pid option \<Rightarrow> (instant \<times> event) list \<Rightarrow> bool" where
  "vm_stopped cfg own evs \<longleftrightarrow>
     (case own of
        None \<Rightarrow> evs = []
      | Some p \<Rightarrow> \<exists>evs0 r t1 ok1 t2 ok2 t3 ok3. killed_gracefully p (shutdown_grace_secs cfg) evs0 r \<and>
          evs = evs0 @ [(t1, EvKill p (Some SIGKILL) ok1), (t2, EvRun (pkill_children p SIGKILL) ok2),
            (t3, EvRun pkill_crosvm ok3)])"

lemma vm_stopped_only:
  assumes "vm_stopped cfg own evs"
  shows "spawned evs = []" "\<forall>(t, q, s) \<in> set (sent_signals evs). own = Some q"
    "\<forall>c \<in> set (commands evs). c = pkill_crosvm \<or> (\<exists>q. own = Some q \<and> c = pkill_children q SIGKILL)"
  using assms by (auto simp: vm_stopped_def killed_gracefully_only(2,3) split: option.splits
      dest: killed_gracefully_only(1))

lemma vm_stop_effect:
  assumes "vm_stop cfg os m e = Some (m', e')"
  shows "\<exists>evs. trace e' = trace e @ evs \<and> vm_stopped cfg (vm_child_pid m) evs"
  using assms
proof (cases rule: vm_stop_cases)
  case idle
  then show ?thesis by (simp add: vm_stopped_def)
next
  case (killed p r e1)
  obtain evs where "trace e1 = trace e @ evs" "killed_gracefully p (shutdown_grace_secs cfg) evs r"
    using graceful_kill_trace [OF killed(2)] by blast
  moreover have "\<exists>t1 ok1 t2 ok2 t3 ok3. trace e' = trace e1 @ [(t1, EvKill p (Some SIGKILL) ok1),
      (t2, EvRun (pkill_children p SIGKILL) ok2), (t3, EvRun pkill_crosvm ok3)]"
    by (simp add: killed(3) kill_tree_def kill_def run_command_def env_simps case_prod_beta)
  ultimately show ?thesis using killed(1) by (fastforce simp: vm_stopped_def)
qed

lemma pkill_children_9: "pkill_children p SIGKILL = pkill [''-P'', dec_int (sint p), ''-9'']"
proof -
  have "dec 9 = ''9''" by code_simp
  then show ?thesis by (simp add: pkill_children_def)
qed

text \<open>
  C25. Stopping the VM. Without a child the kernel is not called at all. A child \<open>p\<close> is
  killed gracefully (SIGTERM, then SIGKILL after the grace period, as the probes say); then
  it gets SIGKILL in any case, \<open>pkill -P p -9\<close> is run for its children, and
  \<open>pkill -9 -f crosvm\<close> for every process whose command line mentions \<open>crosvm\<close>, which may
  hit processes the daemon never started. Either way the manager ends idle and owning nothing,
  with its crash counter unchanged.
\<close>

theorem vm_stop_result:
  assumes "vm_stop cfg os m e = Some (m', e')"
  shows "m' = m\<lparr>vm_state := Vm_Idle, vm_child_pid := None, vm_ready_since := None\<rparr> \<and>
    (\<exists>evs. trace e' = trace e @ evs \<and>
       (case vm_child_pid m of
          None \<Rightarrow> evs = [] \<and> e' = e
        | Some p \<Rightarrow> \<exists>evs0 r t1 ok1 t2 ok2 t3 ok3.
            killed_gracefully p (shutdown_grace_secs cfg) evs0 r \<and>
            evs = evs0 @ [(t1, EvKill p (Some SIGKILL) ok1),
              (t2, EvRun (pkill [''-P'', dec_int (sint p), ''-9'']) ok2),
              (t3, EvRun (pkill [''-9'', ''-f'', ''crosvm'']) ok3)]))"
proof -
  have "m' = m\<lparr>vm_state := Vm_Idle, vm_child_pid := None, vm_ready_since := None\<rparr>"
    and "vm_child_pid m = None \<Longrightarrow> e' = e"
    using assms by (auto elim!: vm_stop_cases)
  then show ?thesis
    using vm_stop_effect [OF assms] unfolding vm_stopped_def pkill_children_9 pkill_crosvm_def
    by (auto split: option.split)
qed

theorem vm_stop_result_witness:
  "\<exists>m' e'. vm_stop default_config sim_os (vm_new\<lparr>vm_state := Vm_Ready, vm_child_pid := Some 7\<rparr>)
       (sim_env sim_world) = Some (m', e') \<and> vm_state m' = Vm_Idle \<and> vm_child_pid m' = None \<and>
     (\<exists>t ok. last (trace e') = (t, EvRun (pkill [''-9'', ''-f'', ''crosvm'']) ok))"
proof -
  let ?m = "vm_new\<lparr>vm_state := Vm_Ready, vm_child_pid := Some 7\<rparr>"
  have "vm_stop default_config sim_os ?m (sim_env sim_world) \<noteq> None"
    by (simp add: vm_stop_def graceful_kill_def grace_wait.simps is_alive_def default_defs sim_eval)
  then obtain m' e' where "vm_stop default_config sim_os ?m (sim_env sim_world) = Some (m', e')"
    by fastforce
  with vm_stop_result [OF this] show ?thesis by fastforce
qed

end
