(* ===== verification/Ca.thy ===== *)
theory Ca
  imports Supervisor
begin

text \<open>
  \<open>CaManager\<close> of src/src/ca.rs: the supervisor of the \<open>secret_proxy_ca\<close> process. As
  for the VM, the borrowed configuration is the argument \<open>cfg\<close>.
\<close>

section \<open>State and operations\<close>

datatype ca_state = Ca_Idle | Ca_Starting | Ca_Running | Ca_Ready | Ca_Stopping | Ca_Error

record ca_manager =
  ca_state :: ca_state
  ca_child_pid :: "pid option"
  ca_crash_count :: u32
  ca_ready_since :: "instant option"

definition ca_new :: ca_manager where
  "ca_new = \<lparr>ca_state = Ca_Idle, ca_child_pid = None, ca_crash_count = 0, ca_ready_since = None\<rparr>"

definition ca_set_state :: "'w os \<Rightarrow> ca_state \<Rightarrow> ca_manager \<Rightarrow> 'w env \<Rightarrow> ca_manager \<times> 'w env" where
  "ca_set_state os s m e =
     (let m1 = m\<lparr>ca_state := s\<rparr> in
      if s = Ca_Ready then
        let (now, e1) = instant_now os e in (m1\<lparr>ca_ready_since := Some now\<rparr>, e1)
      else (m1, e))"

definition ca_owns_pid :: "ca_manager \<Rightarrow> pid \<Rightarrow> bool" where
  "ca_owns_pid m p \<longleftrightarrow> ca_child_pid m = Some p"

definition ca_is_dead :: "'w os \<Rightarrow> ca_manager \<Rightarrow> 'w env \<Rightarrow> bool \<times> 'w env" where
  "ca_is_dead os m e =
     (if ca_state m = Ca_Idle \<or> ca_state m = Ca_Error then
        (case ca_child_pid m of
           None \<Rightarrow> (False, e)
         | Some p \<Rightarrow> (let (alive, e1) = is_alive os p e in (\<not> alive, e1)))
      else (False, e))"

definition ca_mark_dead :: "ca_manager \<Rightarrow> ca_manager" where
  "ca_mark_dead m =
     m\<lparr>ca_crash_count := ca_crash_count m + 1, ca_child_pid := None, ca_state := Ca_Idle,
       ca_ready_since := None\<rparr>"

definition ca_maybe_reset_crash_count ::
  "'w os \<Rightarrow> ca_manager \<Rightarrow> 'w env \<Rightarrow> ca_manager \<times> 'w env" where
  "ca_maybe_reset_crash_count os m e =
     (case ca_ready_since m of
        None \<Rightarrow> (m, e)
      | Some since \<Rightarrow>
          (let (now, e1) = instant_now os e in
           if 60 * ns_per_sec \<le> elapsed now since then (m\<lparr>ca_crash_count := 0\<rparr>, e1) else (m, e1)))"

definition ca_args :: "config \<Rightarrow> string list" where
  "ca_args cfg = [''serve'', ''--port'', dec (unat (ca_port cfg))]"

definition ca_env :: "config \<Rightarrow> u32 \<Rightarrow> (string \<times> string) list" where
  "ca_env cfg cid =
     [(''VSOCK_CID'', dec (unat cid)),
      (''RUST_LOG'', ca_log_level cfg),
      (''SECRET_PROXY_CA_ADMIN_TOKEN'', ca_admin_token cfg)]"

definition ca_start ::
  "config \<Rightarrow> u32 \<Rightarrow> 'w os \<Rightarrow> ca_manager \<Rightarrow> 'w env \<Rightarrow> (string + unit) \<times> ca_manager \<times> 'w env" where
  "ca_start cfg cid os m e =
     (let (present, e1) = path_exists os (ca_binary cfg) e in
      if \<not> present then (Inl (''CA binary not found: '' @ ca_binary cfg), m, e1)
      else
        let m1 = m\<lparr>ca_state := Ca_Starting\<rparr> in
        (case spawn_with_log os (ca_binary cfg) (ca_args cfg) (ca_env cfg cid)
                (path_join (log_dir cfg) ''ca.log'') None e1 of
           (Inl err, e2) \<Rightarrow> (Inl (''spawn CA: '' @ err_text err), m1, e2)
         | (Inr p, e2) \<Rightarrow>
             (Inr (), m1\<lparr>ca_child_pid := Some p, ca_state := Ca_Running\<rparr>, e2)))"

definition ca_stop :: "config \<Rightarrow> 'w os \<Rightarrow> ca_manager \<Rightarrow> 'w env \<Rightarrow> (ca_manager \<times> 'w env) option" where
  "ca_stop cfg os m e =
     (let m1 = m\<lparr>ca_state := Ca_Stopping\<rparr> in do {
        (m2, e2) \<leftarrow>
          (case ca_child_pid m1 of
             None \<Rightarrow> Some (m1, e)
           | Some p \<Rightarrow> do {
               let m2 = m1\<lparr>ca_child_pid := None\<rparr>;
               (_, e1) \<leftarrow> graceful_kill os p (shutdown_grace_secs cfg) e;
               Some (m2, e1)
             });
        Some (m2\<lparr>ca_state := Ca_Idle, ca_ready_since := None\<rparr>, e2)
      })"

definition probe_request :: "string \<Rightarrow> string" where
  "probe_request agent =
     ''GET /health HTTP/1.0'' @ crlf @ ''Host: 127.0.0.1'' @ crlf @
     ''User-Agent: '' @ agent @ crlf @ ''Connection: close'' @ crlf @ crlf"

definition is_port_ready :: "config \<Rightarrow> 'w os \<Rightarrow> 'w env \<Rightarrow> bool \<times> 'w env" where
  "is_port_ready cfg os e =
     (case connect_timeout os (ca_port cfg) 1 e of
        (Inl _, e1) \<Rightarrow> (False, e1)
      | (Inr _, e1) \<Rightarrow> (True, http_exchange os (probe_request ''teeproxyd-probe'') 64 e1))"

section \<open>Frames\<close>

lemma ca_set_state_env [env_mono]: "op_le e (snd (ca_set_state os s m e))"
  using call_op_le(18) [of e os] by (simp add: ca_set_state_def case_prod_beta Let_def)

lemma ca_maybe_reset_env [env_mono]: "op_le e (snd (ca_maybe_reset_crash_count os m e))"
  using call_op_le(18) [of e os]
  by (simp add: ca_maybe_reset_crash_count_def case_prod_beta Let_def split: option.split)

lemma is_port_ready_env [env_mono]: "op_le e (snd (is_port_ready cfg os e))"
  using call_op_le(12) [of e os "ca_port cfg" 1] op_le_trans [OF call_op_le(12) call_op_le(13)]
  by (auto simp: is_port_ready_def case_prod_beta split: sum.split)

lemma is_port_ready_quiet [quiet_intros]: "quiet e (snd (is_port_ready cfg os e))"
  using quiet_calls(6) [of e os "ca_port cfg" 1] quiet_trans [OF quiet_calls(6) quiet_calls(7)]
  by (auto simp: is_port_ready_def case_prod_beta split: sum.split)

lemma ca_start_cases:
  assumes "ca_start cfg cid os m e = (r, m', e')"
  obtains
    (missing) "path_exists os (ca_binary cfg) e = (False, e')"
      "r = Inl (''CA binary not found: '' @ ca_binary cfg)" "m' = m"
  | (failed) e1 err where "path_exists os (ca_binary cfg) e = (True, e1)"
      "spawn_with_log os (ca_binary cfg) (ca_args cfg) (ca_env cfg cid)
         (path_join (log_dir cfg) ''ca.log'') None e1 = (Inl err, e')"
      "r = Inl (''spawn CA: '' @ err_text err)" "m' = m\<lparr>ca_state := Ca_Starting\<rparr>"
  | (started) e1 p where "path_exists os (ca_binary cfg) e = (True, e1)"
      "spawn_with_log os (ca_binary cfg) (ca_args cfg) (ca_env cfg cid)
         (path_join (log_dir cfg) ''ca.log'') None e1 = (Inr p, e')"
      "r = Inr ()" "m' = m\<lparr>ca_state := Ca_Running, ca_child_pid := Some p\<rparr>"
  using assms
  by (auto simp: ca_start_def Let_def split: prod.splits sum.splits if_splits)

lemma ca_start_env:
  assumes "ca_start cfg cid os m e = (r, m', e')"
  shows "op_le e e'"
  using assms
proof (cases rule: ca_start_cases)
  case missing
  then show ?thesis using call_op_le(4) [of e os "ca_binary cfg"] by simp
next
  case failed
  then show ?thesis using op_le_trans [OF call_op_le(4) spawn_with_log_env] by (metis snd_conv)
next
  case started
  then show ?thesis using op_le_trans [OF call_op_le(4) spawn_with_log_env] by (metis snd_conv)
qed

lemma ca_stop_cases:
  assumes "ca_stop cfg os m e = Some (m', e')"
  obtains
    (idle) "ca_child_pid m = None" "e' = e" "m' = m\<lparr>ca_state := Ca_Idle, ca_ready_since := None\<rparr>"
  | (killed) p r where "ca_child_pid m = Some p"
      "graceful_kill os p (shutdown_grace_secs cfg) e = Some (r, e')"
      "m' = m\<lparr>ca_state := Ca_Idle, ca_child_pid := None, ca_ready_since := None\<rparr>"
  using assms
  by (auto simp: ca_stop_def Let_def split: option.splits elim!: bind_SomeE)

lemma ca_stop_env: "ca_stop cfg os m e = Some (m', e') \<Longrightarrow> op_le e e'"
  by (erule ca_stop_cases) (auto intro: graceful_kill_env)

section \<open>The manager meets the supervisor contract\<close>

interpretation cas: supervised ca_new ca_child_pid
  "\<lambda>m. ca_state m = Ca_Idle \<or> ca_state m = Ca_Error" ca_crash_count ca_ready_since ca_owns_pid
  ca_is_dead ca_mark_dead "\<lambda>os. ca_set_state os Ca_Error" "\<lambda>os. ca_set_state os Ca_Ready"
  "\<lambda>cfg. ca_start cfg (vsock_cid cfg)" ca_stop ca_maybe_reset_crash_count
proof (unfold_locales, goal_cases)
  case (11 os m e m' e')
  then show ?case by (auto simp: ca_set_state_def)
next
  case (12 os m e m' e')
  then show ?case
    using ca_set_state_env [of e os Ca_Ready m] instant_now_fst [of os e]
    by (auto simp: ca_set_state_def Let_def case_prod_beta)
next
  case (13 cfg os m e m' e')
  then show ?case using ca_start_env [OF 13] by (auto elim!: ca_start_cases)
next
  case (14 cfg os m e err m' e')
  then show ?case using ca_start_env [OF 14] by (auto elim!: ca_start_cases)
next
  case (15 cfg os m e m' e')
  then show ?case using ca_stop_env [OF 15] by (auto elim!: ca_stop_cases)
next
  case (16 os m e m' e')
  then show ?case
    using ca_maybe_reset_env [of e os m] instant_now_fst [of os e]
    by (auto simp: ca_maybe_reset_crash_count_def case_prod_beta split: option.splits if_splits)
qed (auto simp: ca_new_def ca_owns_pid_def ca_is_dead_def ca_mark_dead_def split: option.split)

text \<open>The invariant of the contract, spelled out for this manager.\<close>

definition ca_inv :: "ca_manager \<Rightarrow> bool" where
  "ca_inv m \<longleftrightarrow> (ca_state m = Ca_Idle \<or> ca_state m = Ca_Error \<longrightarrow> ca_child_pid m = None)"

lemma ca_inv_iff: "cas.mgr_inv m \<longleftrightarrow> ca_inv m"
  by (simp add: cas.mgr_inv_def ca_inv_def)

lemmas ca_inv_ops = cas.mgr_inv_ops [unfolded ca_inv_iff]

lemmas ca_is_dead_never = cas.is_dead_never [unfolded ca_inv_iff]

section \<open>Properties\<close>

definition ca_command :: "config \<Rightarrow> u32 \<Rightarrow> command" where
  "ca_command cfg cid =
     \<lparr>c_prog = ca_binary cfg, c_args = ca_args cfg, c_env = ca_env cfg cid,
      c_log = Some (path_join (log_dir cfg) ''ca.log''), c_cwd = None\<rparr>"

text \<open>
  Why a start of the CA may fail, as the trace shows it: the binary is missing, its log file
  could not be opened, or the kernel could not start the process.
\<close>

definition ca_start_failed :: "config \<Rightarrow> (instant \<times> event) list \<Rightarrow> bool" where
  "ca_start_failed cfg evs \<longleftrightarrow> (\<exists>t. (t, EvExists (ca_binary cfg) False) \<in> set evs) \<or>
     log_failed (path_join (log_dir cfg) ''ca.log'') evs \<or> (\<exists>c err. (c, Inl err) \<in> set (spawned evs))"

lemma ca_start_effect:
  assumes "ca_start cfg cid os m e = (r, m', e')"
  shows "\<exists>evs. trace e' = trace e @ evs \<and> sent_signals evs = [] \<and> commands evs = [] \<and>
    (case r of
       Inr _ \<Rightarrow> (\<exists>p. spawned evs = [(ca_command cfg cid, Inr p)] \<and>
                   m' = m\<lparr>ca_state := Ca_Running, ca_child_pid := Some p\<rparr>)
     | Inl _ \<Rightarrow> ca_start_failed cfg evs \<and> (m' = m \<or> m' = m\<lparr>ca_state := Ca_Starting\<rparr>) \<and>
                (spawned evs = [] \<or> (\<exists>err. spawned evs = [(ca_command cfg cid, Inl err)])))"
  using assms
proof (cases rule: ca_start_cases)
  case missing
  then show ?thesis using sys_facts(1) [OF missing(1) [unfolded path_exists_def]]
    by (auto simp: ca_start_failed_def)
next
  case (failed e1 err)
  have "trace e1 = trace e @ [(clock e1, EvExists (ca_binary cfg) True)]"
    using sys_facts(1) [OF failed(1) [unfolded path_exists_def]] by simp
  with failed spawn_with_log_effect [OF failed(2)] show ?thesis
    by (fastforce simp: ca_command_def ca_start_failed_def)
next
  case (started e1 p)
  have "trace e1 = trace e @ [(clock e1, EvExists (ca_binary cfg) True)]"
    using sys_facts(1) [OF started(1) [unfolded path_exists_def]] by simp
  with started spawn_with_log_effect [OF started(2)] show ?thesis by (auto simp: ca_command_def)
qed

text \<open>What stopping a CA leaves in the trace: a graceful kill of its process, if it has one.\<close>

definition ca_stopped :: "config \<Rightarrow> pid option \<Rightarrow> (instant \<times> event) list \<Rightarrow> bool" where
  "ca_stopped cfg own evs \<longleftrightarrow>
     (case own of
        None \<Rightarrow> evs = []
      | Some p \<Rightarrow> \<exists>r. killed_gracefully p (shutdown_grace_secs cfg) evs r)"

lemma ca_stopped_only:
  assumes "ca_stopped cfg own evs"
  shows "spawned evs = []" "\<forall>(t, q, s) \<in> set (sent_signals evs). own = Some q" "commands evs = []"
  using assms by (auto simp: ca_stopped_def killed_gracefully_only(2,3) split: option.splits
      dest: killed_gracefully_only(1))

lemma ca_stop_effect:
  assumes "ca_stop cfg os m e = Some (m', e')"
  shows "\<exists>evs. trace e' = trace e @ evs \<and> ca_stopped cfg (ca_child_pid m) evs"
  using assms
proof (cases rule: ca_stop_cases)
  case idle
  then show ?thesis by (simp add: ca_stopped_def)
next
  case (killed p r)
  from graceful_kill_trace [OF killed(2)] killed(1) show ?thesis by (auto simp: ca_stopped_def)
qed

text \<open>
  C27. Starting the CA. On success exactly one process was started: the CA binary serving on
  the configured port, with the vsock CID, log level and admin token in its environment
  (the token never on its command line); the manager owns its pid and is running. On failure
  the manager keeps its pid, crash counter and ready time, and the kernel reported why. No
  signal is sent and no other program is run.
\<close>

theorem ca_start_result:
  assumes "ca_start cfg cid os m e = (r, m', e')"
  shows "\<exists>evs. trace e' = trace e @ evs \<and> sent_signals evs = [] \<and> commands evs = [] \<and>
    (\<forall>(c, x) \<in> set (spawned evs). c_prog c = ca_binary cfg \<and>
        c_args c = [''serve'', ''--port'', dec (unat (ca_port cfg))] \<and>
        map_of (c_env c) ''VSOCK_CID'' = Some (dec (unat cid)) \<and>
        map_of (c_env c) ''RUST_LOG'' = Some (ca_log_level cfg) \<and>
        map_of (c_env c) ''SECRET_PROXY_CA_ADMIN_TOKEN'' = Some (ca_admin_token cfg)) \<and>
    (case r of
       Inr _ \<Rightarrow> (\<exists>c p. spawned evs = [(c, Inr p)] \<and>
                   m' = m\<lparr>ca_state := Ca_Running, ca_child_pid := Some p\<rparr>)
     | Inl _ \<Rightarrow> (\<forall>(c, x) \<in> set (spawned evs). \<exists>err. x = Inl err) \<and> ca_start_failed cfg evs \<and>
                (m' = m \<or> m' = m\<lparr>ca_state := Ca_Starting\<rparr>))"
  using ca_start_effect [OF assms]
  by (auto simp: ca_command_def ca_args_def ca_env_def split: sum.splits if_splits)

theorem ca_start_result_witness:
  "\<exists>m' e' evs. ca_start default_config 103 (sim_os_fs (\<lambda>_. Some 1)) ca_new (sim_env sim_world)
       = (Inr (), m', e') \<and> trace e' = trace (sim_env sim_world) @ evs \<and>
     (\<exists>c p. spawned evs = [(c, Inr p)] \<and>
        m' = ca_new\<lparr>ca_state := Ca_Running, ca_child_pid := Some p\<rparr>)"
proof -
  obtain m' e' where
    s: "ca_start default_config 103 (sim_os_fs (\<lambda>_. Some 1)) ca_new (sim_env sim_world) = (Inr (), m', e')"
    by (simp add: ca_start_def spawn_with_log_def rotate_if_needed_def max_log_bytes_def sim_eval)
  then show ?thesis using ca_start_result [OF s] by auto
qed

end
