(* ===== verification/Health.thy ===== *)
theory Health
  imports Process
begin

text \<open>
  \<open>HealthMonitor\<close> of src/src/health.rs: the TCP probe of the CA with its two counters.
  \<open>probe_update\<close> is the \<open>match\<close> of \<open>probe\<close> on the outcome of the connection
  (\<open>None\<close> when it succeeded, else the kind of the error). The two counters meet one
  contract, \<open>strike_counter\<close>.
\<close>

section \<open>State and operations\<close>

datatype health_result = HealthOk | Degraded u32 | RestartNeeded

record health_monitor =
  hm_port :: u16
  fail_threshold :: u32
  consecutive_failures :: u32
  consecutive_timeouts :: u32
  timeout_threshold :: u32

definition health_new :: "u16 \<Rightarrow> u32 \<Rightarrow> health_monitor" where
  "health_new port threshold =
     \<lparr>hm_port = port, fail_threshold = threshold, consecutive_failures = 0,
      consecutive_timeouts = 0, timeout_threshold = 10\<rparr>"

definition health_request :: string where
  "health_request =
     ''GET /health HTTP/1.0'' @ crlf @ ''Host: 127.0.0.1'' @ crlf @
     ''User-Agent: teeproxyd-health'' @ crlf @ ''Connection: close'' @ crlf @ crlf"

fun probe_update :: "io_kind option \<Rightarrow> health_monitor \<Rightarrow> health_result \<times> health_monitor" where
  "probe_update None h = (HealthOk, h\<lparr>consecutive_failures := 0, consecutive_timeouts := 0\<rparr>)"
| "probe_update (Some ConnectionRefused) h =
     (let h1 = h\<lparr>consecutive_timeouts := 0, consecutive_failures := consecutive_failures h + 1\<rparr> in
      if fail_threshold h1 \<le> consecutive_failures h1
      then (RestartNeeded, h1\<lparr>consecutive_failures := 0\<rparr>)
      else (Degraded (consecutive_failures h1), h1))"
| "probe_update (Some TimedOut) h =
     (let h1 = h\<lparr>consecutive_timeouts := consecutive_timeouts h + 1\<rparr> in
      if timeout_threshold h1 \<le> consecutive_timeouts h1
      then (RestartNeeded, h1\<lparr>consecutive_timeouts := 0\<rparr>)
      else (HealthOk, h1))"
| "probe_update (Some OtherKind) h = (HealthOk, h)"

definition health_probe ::
  "'w os \<Rightarrow> health_monitor \<Rightarrow> 'w env \<Rightarrow> health_result \<times> health_monitor \<times> 'w env" where
  "health_probe os h e =
     (case connect_timeout os (hm_port h) 2 e of
        (Inr _, e1) \<Rightarrow>
          (let e2 = http_exchange os health_request 256 e1;
               (r, h1) = probe_update None h
           in (r, h1, e2))
      | (Inl err, e1) \<Rightarrow>
          (let (r, h1) = probe_update (Some (err_kind err)) h in (r, h1, e1)))"

text \<open>The monitor over a sequence of outcomes, with the answers it gives.\<close>

fun probe_run :: "io_kind option list \<Rightarrow> health_monitor \<Rightarrow> health_result list \<times> health_monitor" where
  "probe_run [] h = ([], h)"
| "probe_run (r # rs) h =
     (let (a, h1) = probe_update r h; (as, h2) = probe_run rs h1 in (a # as, h2))"

section \<open>The contract of a strike counter\<close>

text \<open>
  A counter below its limit that each strike increases, and that fires and returns to zero
  when it reaches the limit.
\<close>

locale strike_counter =
  fixes strike :: "'m \<Rightarrow> health_result \<times> 'm"
    and strikes :: "'m \<Rightarrow> nat"
    and limit :: "'m \<Rightarrow> nat"
    and inv :: "'m \<Rightarrow> bool"
  assumes below: "inv m \<Longrightarrow> strikes m < limit m"
    and strike_inv: "inv m \<Longrightarrow> inv (snd (strike m))"
    and strike_limit: "inv m \<Longrightarrow> limit (snd (strike m)) = limit m"
    and strike_count: "inv m \<Longrightarrow> strikes (snd (strike m)) = Suc (strikes m) mod limit m"
    and strike_fires: "inv m \<Longrightarrow> fst (strike m) = RestartNeeded \<longleftrightarrow> Suc (strikes m) = limit m"
begin

lemma run_inv: "inv m \<Longrightarrow> inv (((\<lambda>h. snd (strike h)) ^^ n) m)"
  by (induction n) (auto simp: strike_inv)

lemma run_limit: "inv m \<Longrightarrow> limit (((\<lambda>h. snd (strike h)) ^^ n) m) = limit m"
  by (induction n) (auto simp: strike_limit run_inv)

lemma run_count: "inv m \<Longrightarrow> strikes (((\<lambda>h. snd (strike h)) ^^ n) m) = (strikes m + n) mod limit m"
proof (induction n)
  case 0
  then show ?case using below by simp
next
  case (Suc n)
  then show ?case
    by (simp add: strike_count run_inv run_limit mod_Suc_eq)
qed

lemma fires_iff_dvd:
  "inv m \<Longrightarrow> fst (strike m) = RestartNeeded \<longleftrightarrow> limit m dvd Suc (strikes m)"
proof -
  assume i: "inv m"
  have "limit m dvd Suc (strikes m) \<longleftrightarrow> Suc (strikes m) = limit m"
    using below [OF i] by (metis Suc_leI dvd_imp_le dvd_refl le_antisym zero_less_Suc)
  then show ?thesis using strike_fires [OF i] by simp
qed

lemma run_fires:
  assumes "inv m"
  shows "fst (strike (((\<lambda>h. snd (strike h)) ^^ n) m)) = RestartNeeded \<longleftrightarrow> limit m dvd Suc (strikes m + n)"
  using fires_iff_dvd [OF run_inv [OF assms, of n]] run_count [OF assms, of n] run_limit [OF assms, of n]
  by (metis dvd_eq_mod_eq_0 mod_Suc_eq)

end

section \<open>Both counters meet it\<close>

definition fail_limit :: "health_monitor \<Rightarrow> nat" where
  "fail_limit h = max 1 (unat (fail_threshold h))"

definition health_inv :: "health_monitor \<Rightarrow> bool" where
  "health_inv h \<longleftrightarrow>
     unat (consecutive_failures h) < fail_limit h \<and>
     unat (consecutive_timeouts h) < 10 \<and> timeout_threshold h = 10"

lemma fail_limit_bound: "fail_limit h < 2 ^ 32"
  using unsigned_less [of "fail_threshold h"] by (simp add: fail_limit_def)

lemma unat_failures_Suc:
  "health_inv h \<Longrightarrow> unat (consecutive_failures h + 1) = Suc (unat (consecutive_failures h))"
  using fail_limit_bound [of h] by (auto simp: health_inv_def unat_Suc32)

lemma unat_timeouts_Suc:
  "health_inv h \<Longrightarrow> unat (consecutive_timeouts h + 1) = Suc (unat (consecutive_timeouts h))"
  by (auto simp: health_inv_def unat_Suc32)

lemma refused_fires:
  "health_inv h \<Longrightarrow>
     fail_threshold h \<le> consecutive_failures h + 1 \<longleftrightarrow> Suc (unat (consecutive_failures h)) = fail_limit h"
  unfolding word_le_nat_alt unat_failures_Suc by (auto simp: health_inv_def fail_limit_def)

lemma timeout_fires:
  "health_inv h \<Longrightarrow> timeout_threshold h \<le> consecutive_timeouts h + 1 \<longleftrightarrow>
     Suc (unat (consecutive_timeouts h)) = 10"
  unfolding word_le_nat_alt unat_timeouts_Suc by (auto simp: health_inv_def)

interpretation refusals: strike_counter "probe_update (Some ConnectionRefused)"
  "\<lambda>h. unat (consecutive_failures h)" fail_limit health_inv
proof (unfold_locales, goal_cases)
  case (1 m)
  then show ?case by (simp add: health_inv_def)
next
  case (2 m)
  then show ?case using refused_fires [OF 2] unat_failures_Suc [OF 2]
    by (auto simp: Let_def health_inv_def fail_limit_def)
next
  case (3 m)
  then show ?case by (simp add: Let_def fail_limit_def)
next
  case (4 m)
  then show ?case using refused_fires [OF 4] unat_failures_Suc [OF 4]
    by (auto simp: Let_def health_inv_def)
next
  case (5 m)
  then show ?case using refused_fires [OF 5] by (simp add: Let_def)
qed

interpretation timeouts: strike_counter "probe_update (Some TimedOut)"
  "\<lambda>h. unat (consecutive_timeouts h)" "\<lambda>_. 10" health_inv
proof (unfold_locales, goal_cases)
  case (1 m)
  then show ?case by (simp add: health_inv_def)
next
  case (2 m)
  then show ?case using timeout_fires [OF 2] unat_timeouts_Suc [OF 2]
    by (auto simp: Let_def health_inv_def fail_limit_def)
next
  case (3 m)
  then show ?case by simp
next
  case (4 m)
  then show ?case using timeout_fires [OF 4] unat_timeouts_Suc [OF 4]
    by (auto simp: Let_def health_inv_def)
next
  case (5 m)
  then show ?case using timeout_fires [OF 5] by (simp add: Let_def)
qed

lemma health_inv_new: "health_inv (health_new port thr)"
  by (simp add: health_inv_def health_new_def fail_limit_def)

lemma health_inv_update: "health_inv h \<Longrightarrow> health_inv (snd (probe_update r h))"
proof (cases r rule: option.exhaust)
  case (Some k)
  then show "health_inv h \<Longrightarrow> ?thesis"
    using refusals.strike_inv timeouts.strike_inv by (cases k) auto
qed (simp add: health_inv_def fail_limit_def)

section \<open>Properties\<close>

text \<open>
  The specification on the history of outcomes, newest first: refusals since the last
  successful connection, and timeouts since the last success or refusal. Other errors count
  for neither and interrupt neither.
\<close>

definition refusals_since_ok :: "io_kind option list \<Rightarrow> nat" where
  "refusals_since_ok hist =
     length (filter (\<lambda>r. r = Some ConnectionRefused) (takeWhile (\<lambda>r. r \<noteq> None) hist))"

definition timeouts_in_row :: "io_kind option list \<Rightarrow> nat" where
  "timeouts_in_row hist =
     length (filter (\<lambda>r. r = Some TimedOut)
       (takeWhile (\<lambda>r. r \<noteq> None \<and> r \<noteq> Some ConnectionRefused) hist))"

lemma refusals_since_ok_simps [simp]:
  "refusals_since_ok [] = 0" "refusals_since_ok (None # hist) = 0"
  "refusals_since_ok (Some k # hist) =
     refusals_since_ok hist + (if k = ConnectionRefused then 1 else 0)"
  by (auto simp: refusals_since_ok_def)

lemma timeouts_in_row_simps [simp]:
  "timeouts_in_row [] = 0" "timeouts_in_row (None # hist) = 0"
  "timeouts_in_row (Some ConnectionRefused # hist) = 0"
  "timeouts_in_row (Some TimedOut # hist) = Suc (timeouts_in_row hist)"
  "timeouts_in_row (Some OtherKind # hist) = timeouts_in_row hist"
  by (auto simp: timeouts_in_row_def)

text \<open>The abstraction relation between a monitor and the history it has seen.\<close>

definition tracks :: "u32 \<Rightarrow> io_kind option list \<Rightarrow> health_monitor \<Rightarrow> bool" where
  "tracks thr hist h \<longleftrightarrow> health_inv h \<and> fail_threshold h = thr \<and>
     unat (consecutive_failures h) = refusals_since_ok hist mod fail_limit h \<and>
     unat (consecutive_timeouts h) = timeouts_in_row hist mod 10"

lemma tracks_new: "tracks thr [] (health_new port thr)"
  using health_inv_new by (simp add: tracks_def health_new_def)

lemma tracks_update:
  assumes "tracks thr hist h"
  shows "tracks thr (r # hist) (snd (probe_update r h))"
proof -
  have i: "health_inv h" using assms by (simp add: tracks_def)
  have j: "health_inv (snd (probe_update r h))" by (rule health_inv_update [OF i])
  consider (ok) "r = None" | (refused) "r = Some ConnectionRefused"
    | (timeout) "r = Some TimedOut" | (other) "r = Some OtherKind"
    by (metis io_kind.exhaust option.exhaust)
  then show ?thesis
  proof cases
    case ok
    then show ?thesis using assms j by (simp add: tracks_def fail_limit_def)
  next
    case refused
    have "timeout_threshold h = 10" using i by (simp add: health_inv_def)
    then show ?thesis
      using assms j refusals.strike_count [OF i] refusals.strike_limit [OF i] refused
      by (auto simp: tracks_def Let_def mod_Suc_eq)
  next
    case timeout
    then show ?thesis
      using assms j timeouts.strike_count [OF i]
      by (auto simp: tracks_def Let_def mod_Suc_eq fail_limit_def)
  next
    case other
    then show ?thesis using assms by (simp add: tracks_def)
  qed
qed

lemma tracks_answer:
  assumes "tracks thr hist h"
  shows "fst (probe_update r h) = RestartNeeded \<longleftrightarrow>
     r = Some ConnectionRefused \<and> max 1 (unat thr) dvd refusals_since_ok (r # hist) \<or>
     r = Some TimedOut \<and> 10 dvd timeouts_in_row (r # hist)"
proof -
  have i: "health_inv h" and l: "fail_limit h = max 1 (unat thr)"
    using assms by (simp_all add: tracks_def fail_limit_def)
  have f: "unat (consecutive_failures h) = refusals_since_ok hist mod max 1 (unat thr)"
    and t: "unat (consecutive_timeouts h) = timeouts_in_row hist mod 10"
    using assms l by (simp_all add: tracks_def)
  have R: "fst (probe_update (Some ConnectionRefused) h) = RestartNeeded \<longleftrightarrow>
      max 1 (unat thr) dvd Suc (refusals_since_ok hist)"
    using refusals.fires_iff_dvd [OF i] unfolding l f by (simp add: dvd_eq_mod_eq_0 mod_Suc_eq)
  have T: "fst (probe_update (Some TimedOut) h) = RestartNeeded \<longleftrightarrow> 10 dvd Suc (timeouts_in_row hist)"
    using timeouts.fires_iff_dvd [OF i] unfolding t by (simp add: dvd_eq_mod_eq_0 mod_Suc_eq)
  consider (ok) "r = None" | (refused) "r = Some ConnectionRefused"
    | (timeout) "r = Some TimedOut" | (other) "r = Some OtherKind"
    by (metis io_kind.exhaust option.exhaust)
  then show ?thesis using R T by cases (simp_all del: probe_update.simps(2,3))
qed

lemma tracks_run: "tracks thr hist h \<Longrightarrow> tracks thr (rev rs @ hist) (snd (probe_run rs h))"
proof (induction rs arbitrary: hist h)
  case (Cons r rs)
  from Cons.IH [OF tracks_update [OF Cons.prems, of r]] show ?case
    by (simp add: case_prod_beta Let_def)
qed simp

lemma probe_run_append:
  "probe_run (rs @ [r]) h =
     (fst (probe_run rs h) @ [fst (probe_update r (snd (probe_run rs h)))],
      snd (probe_update r (snd (probe_run rs h))))"
  by (induction rs arbitrary: h) (simp_all add: case_prod_beta Let_def)

text \<open>
  C22. The monitor refines its specification on histories: after any sequence of probes
  from a fresh monitor, the next probe asks for a restart exactly when it is refused and the
  refusals since the last successful connection are a multiple of the threshold (at least
  one), or when it times out and the timeouts in a row are a multiple of ten.
\<close>

theorem health_restart_iff:
  "last (fst (probe_run (rs @ [r]) (health_new port thr))) = RestartNeeded \<longleftrightarrow>
     r = Some ConnectionRefused \<and> max 1 (unat thr) dvd refusals_since_ok (r # rev rs) \<or>
     r = Some TimedOut \<and> 10 dvd timeouts_in_row (r # rev rs)"
  using tracks_answer [OF tracks_run [OF tracks_new [of thr port], of rs], of r]
  by (simp add: probe_run_append)

text \<open>
  C23. The counters stay below their thresholds on every run, so the 32-bit increments
  never wrap around, whatever the threshold.
\<close>

theorem health_counters_bounded:
  "unat (consecutive_failures (snd (probe_run rs (health_new port thr)))) < max 1 (unat thr) \<and>
   unat (consecutive_timeouts (snd (probe_run rs (health_new port thr)))) < 10 \<and>
   unat (consecutive_failures (snd (probe_run rs (health_new port thr))) + 1) =
     unat (consecutive_failures (snd (probe_run rs (health_new port thr)))) + 1"
proof -
  let ?h = "snd (probe_run rs (health_new port thr))"
  have t: "tracks thr (rev rs) ?h" using tracks_run [OF tracks_new, of thr rs port] by simp
  then have i: "health_inv ?h" and "fail_limit ?h = max 1 (unat thr)"
    by (simp_all add: tracks_def fail_limit_def)
  then show ?thesis using unat_failures_Suc [OF i] by (simp add: health_inv_def)
qed

text \<open>
  A probe of the port that connects clears both counters and answers \<open>Ok\<close>,
  whatever the exchange on the stream does, and no probe touches any process.
\<close>

theorem health_probe_connected:
  assumes "fst (connect_timeout os (hm_port h) 2 e) = Inr ()"
    and "health_probe os h e = (r, h', e')"
  shows "r = HealthOk \<and> consecutive_failures h' = 0 \<and> consecutive_timeouts h' = 0 \<and> quiet e e'"
proof -
  obtain e1 where c: "connect_timeout os (hm_port h) 2 e = (Inr (), e1)"
    using assms(1) by (metis prod.collapse)
  have "quiet e e1" using quiet_calls(6) [of e os "hm_port h" 2] c by simp
  also have "quiet e1 (http_exchange os health_request 256 e1)" by (rule quiet_calls)
  finally show ?thesis using assms(2) c by (auto simp: health_probe_def)
qed

theorem health_probe_connected_witness:
  "\<exists>r h' e'. health_probe sim_os (health_new 19030 3) (sim_env sim_world) = (r, h', e') \<and>
     r = HealthOk \<and> quiet (sim_env sim_world) e'"
proof -
  have c: "fst (connect_timeout sim_os (hm_port (health_new 19030 3)) 2 (sim_env sim_world)) = Inr ()"
    by (simp add: sim_eval)
  obtain r h' e' where
    p: "health_probe sim_os (health_new 19030 3) (sim_env sim_world) = (r, h', e')"
    by (metis prod.collapse)
  show ?thesis using health_probe_connected [OF c p] p by blast
qed

end
