(* ===== verification/Log_Collector.thy ===== *)
theory Log_Collector
  imports Process
begin

text \<open>\<open>tail_log\<close> of src/src/log_collector.rs: the last lines of a log file.\<close>

definition tail_log :: "'w os \<Rightarrow> path \<Rightarrow> nat \<Rightarrow> 'w env \<Rightarrow> string \<times> 'w env" where
  "tail_log os log_path n e =
     (case read_to_string os log_path e of
        (Inl _, e1) \<Rightarrow> (''(file not found)'', e1)
      | (Inr content, e1) \<Rightarrow>
          (let all_lines = str_lines content;
               start = length all_lines - n
           in (str_join [nl] (drop start all_lines), e1)))"

lemma tail_log_quiet [quiet_intros]: "quiet e (snd (tail_log os p n e))"
  using quiet_read_to_string [of e os p]
  by (auto simp: tail_log_def Let_def split: prod.splits sum.splits)

lemma tail_log_env [env_mono]: "op_le e (snd (tail_log os p n e))"
  using call_op_le(11) [of e os p]
  by (auto simp: tail_log_def Let_def split: prod.splits sum.splits)

lemma tail_log_env_eq: "snd (tail_log os p n e) = snd (read_to_string os p e)"
  by (auto simp: tail_log_def Let_def split: prod.splits sum.splits)

lemma read_to_string_trace:
  assumes "fst (read_to_string os p e) = Inr content"
  shows "\<exists>t. trace (snd (read_to_string os p e)) = trace e @ [(t, EvReadFile p (Inr content))]"
  using assms sys_simps(5) [of "os_read_file os p" "\<lambda>r. [EvReadFile p r]" e]
    sys_simps(1) [of "os_read_file os p" "\<lambda>r. [EvReadFile p r]" e]
  by (auto simp: read_to_string_def split: prod.splits sum.splits if_splits)

lemma tail_log_content:
  assumes "fst (read_to_string os p e) = Inr content"
  shows "fst (tail_log os p n e) = str_join [nl] (drop (length (str_lines content) - n) (str_lines content))"
  using assms by (auto simp: tail_log_def Let_def split: prod.splits sum.splits)

lemma count_nl_tail_log:
  assumes "fst (read_to_string os p e) = Inr content"
  shows "count_list (fst (tail_log os p n e)) nl = min n (length (str_lines content)) - 1"
proof -
  let ?d = "drop (length (str_lines content) - n) (str_lines content)"
  have "\<forall>l \<in> set ?d. nl \<notin> set l" using str_lines_no_nl by (meson in_set_dropD)
  then have "count_list (str_join [nl] ?d) nl = length ?d - 1" by (rule count_nl_str_join)
  then show ?thesis using tail_log_content [OF assms, of n] by (simp add: min_def)
qed

text \<open>
  C38. The tail of a readable log is its last \<open>n\<close> lines, in order, joined by line feeds:
  all of them when the file has no more than \<open>n\<close>, and never more than \<open>n\<close>
  (\<open>n - 1\<close> separators). Reading this file is the only thing done: nothing is written,
  renamed, removed, started or signalled.
\<close>

theorem tail_log_last_lines:
  assumes "fst (read_to_string os p e) = Inr content"
  shows "fst (tail_log os p n e) = str_join [nl] (rev (take n (rev (str_lines content)))) \<and>
    (length (str_lines content) \<le> n \<longrightarrow> fst (tail_log os p n e) = str_join [nl] (str_lines content)) \<and>
    count_list (fst (tail_log os p n e)) nl = min n (length (str_lines content)) - 1 \<and>
    (\<exists>t. trace (snd (tail_log os p n e)) = trace e @ [(t, EvReadFile p (Inr content))])"
  using tail_log_content [OF assms, of n] count_nl_tail_log [OF assms, of n]
    read_to_string_trace [OF assms] by (simp add: take_rev tail_log_env_eq)

theorem tail_log_last_lines_witness:
  "fst (tail_log (sim_os\<lparr>os_read_file := (\<lambda>_. answer (Inr (''a'' @ [nl] @ ''b'' @ [cr, nl] @ ''c'')) 0)\<rparr>)
      ''/l'' 2 (sim_env sim_world)) = ''b'' @ [nl] @ ''c''"
proof -
  let ?os = "sim_os\<lparr>os_read_file := (\<lambda>_. answer (Inr (''a'' @ [nl] @ ''b'' @ [cr, nl] @ ''c'')) 0)\<rparr>"
  let ?c = "''a'' @ [nl] @ ''b'' @ [cr, nl] @ ''c''"
  have c: "fst (read_to_string ?os ''/l'' (sim_env sim_world)) = Inr ?c"
    by (simp add: sim_eval utf8_valid_def)
  have l: "str_lines ?c = [''a'', ''b'', ''c'']"
    by (simp add: str_lines_def strip_eol_def strip_suffix_def)
  show ?thesis using tail_log_last_lines [OF c, of 2] unfolding l by simp
qed

end
