(* ===== verification/Startup.thy ===== *)
theory Startup
  imports Vm Ca
begin

text \<open>
  The startup state machine of src/src/startup.rs. \<open>startup_match\<close> is the final
  \<open>match\<close> of \<open>advance_startup\<close>, which is preceded by the two checks for a dead child.
  \<open>None\<close> is a panic: a deadline that does not fit an \<open>Instant\<close>.
\<close>

section \<open>Phases and the step\<close>

datatype startup_phase =
    NotStarted
  | VmStarting
  | WaitingVsock (vsock_deadline: instant) (boot_start: instant) (delay_done: bool)
  | CaStarting
  | WaitingCaPort (port_deadline: instant)
  | Complete
  | Failed string

fun settled :: "startup_phase \<Rightarrow> bool" where
  "settled NotStarted = True"
| "settled Complete = True"
| "settled (Failed _) = True"
| "settled _ = False"

definition startup_match ::
  "config \<Rightarrow> 'w os \<Rightarrow> startup_phase \<Rightarrow> vm_manager \<Rightarrow> ca_manager \<Rightarrow> 'w env
   \<Rightarrow> (startup_phase \<times> vm_manager \<times> ca_manager \<times> 'w env) option" where
  "startup_match cfg os ph vm ca e =
     (case ph of
        NotStarted \<Rightarrow> Some (ph, vm, ca, e)
      | Complete \<Rightarrow> Some (ph, vm, ca, e)
      | Failed _ \<Rightarrow> Some (ph, vm, ca, e)
      | VmStarting \<Rightarrow>
          (case vm_start cfg os vm e of
             (Inr _, vm1, e1) \<Rightarrow>
               let (now, e2) = instant_now os e1 in do {
                 deadline \<leftarrow> instant_add now (vsock_probe_delay_secs cfg + vm_boot_timeout_secs cfg);
                 Some (WaitingVsock deadline now False, vm1, ca, e2)
               }
           | (Inl err, vm1, e1) \<Rightarrow> Some (Failed err, vm1, ca, e1))
      | WaitingVsock deadline start done \<Rightarrow>
          (let (now, e1) = instant_now os e in
           if \<not> done then
             if unat (vsock_probe_delay_secs cfg) * ns_per_sec \<le> elapsed now start
             then Some (WaitingVsock deadline start True, vm, ca, e1)
             else Some (ph, vm, ca, e1)
           else if deadline < now then Some (Failed ''vsock timeout'', vm, ca, e1)
           else
             let (up, e2) = probe_vsock cfg os e1 in
             if up then
               let (vm1, e3) = vm_set_state os Vm_Ready vm e2 in Some (CaStarting, vm1, ca, e3)
             else Some (ph, vm, ca, e2))
      | CaStarting \<Rightarrow>
          (case ca_start cfg (vsock_cid cfg) os ca e of
             (Inr _, ca1, e1) \<Rightarrow>
               let (now, e2) = instant_now os e1 in do {
                 deadline \<leftarrow> instant_add now (ca_ready_timeout_secs cfg);
                 Some (WaitingCaPort deadline, vm, ca1, e2)
               }
           | (Inl err, ca1, e1) \<Rightarrow> Some (Failed err, vm, ca1, e1))
      | WaitingCaPort deadline \<Rightarrow>
          (let (ready, e1) = is_port_ready cfg os e in
           if ready then
             let (ca1, e2) = ca_set_state os Ca_Ready ca e1 in Some (Complete, vm, ca1, e2)
           else
             let (now, e2) = instant_now os e1 in
             if deadline < now then Some (Complete, vm, ca, e2) else Some (ph, vm, ca, e2)))"

fun waiting_ca_port :: "startup_phase \<Rightarrow> bool" where
  "waiting_ca_port (WaitingCaPort _) = True"
| "waiting_ca_port _ = False"

definition advance_startup ::
  "config \<Rightarrow> 'w os \<Rightarrow> startup_phase \<Rightarrow> vm_manager \<Rightarrow> ca_manager \<Rightarrow> 'w env
   \<Rightarrow> (startup_phase \<times> vm_manager \<times> ca_manager \<times> 'w env) option" where
  "advance_startup cfg os ph vm ca e =
     (let (vm_dead, e1) = vm_is_dead os vm e in
      if vm_dead \<and> \<not> settled ph then
        Some (if vm_crash_count vm < 5 then VmStarting else Failed ''VM crashed too many times'',
              vm, ca, e1)
      else
        let (ca_dead, e2) = ca_is_dead os ca e1 in
        if ca_dead \<and> waiting_ca_port ph then
          Some (if ca_crash_count ca < 5 then CaStarting else Failed ''CA crashed too many times'',
                vm, ca, e2)
        else startup_match cfg os ph vm ca e2)"

section \<open>The abstract machine\<close>

text \<open>The phases and the moves between them, without managers, time or kernel.\<close>

inductive phase_step :: "startup_phase \<Rightarrow> startup_phase \<Rightarrow> bool" where
  settled_stays: "settled ph \<Longrightarrow> phase_step ph ph"
| vm_started: "phase_step VmStarting (WaitingVsock d b False)"
| vm_failed: "phase_step VmStarting (Failed err)"
| vsock_waits: "phase_step (WaitingVsock d b x) (WaitingVsock d b x)"
| delay_over: "phase_step (WaitingVsock d b False) (WaitingVsock d b True)"
| vsock_late: "phase_step (WaitingVsock d b True) (Failed ''vsock timeout'')"
| vsock_up: "phase_step (WaitingVsock d b True) CaStarting"
| ca_started: "phase_step CaStarting (WaitingCaPort d)"
| ca_failed: "phase_step CaStarting (Failed err)"
| port_waits: "phase_step (WaitingCaPort d) (WaitingCaPort d)"
| port_done: "phase_step (WaitingCaPort d) Complete"

inductive_simps phase_step_simps:
  "phase_step NotStarted q" "phase_step Complete q" "phase_step (Failed err) q"
  "phase_step VmStarting q" "phase_step CaStarting q"

fun phase_rank :: "startup_phase \<Rightarrow> nat" where
  "phase_rank NotStarted = 0"
| "phase_rank VmStarting = 1"
| "phase_rank (WaitingVsock _ _ done) = (if done then 3 else 2)"
| "phase_rank CaStarting = 4"
| "phase_rank (WaitingCaPort _) = 5"
| "phase_rank Complete = 6"
| "phase_rank (Failed _) = 6"

lemma phase_step_rank: "phase_step p q \<Longrightarrow> p = q \<or> phase_rank p < phase_rank q"
  by (induction rule: phase_step.induct) auto

section \<open>The step under the managers' invariants\<close>

lemma advance_startup_match:
  assumes "vm_inv vm" and "ca_inv ca"
  shows "advance_startup cfg os ph vm ca e = startup_match cfg os ph vm ca e"
  using assms by (simp add: advance_startup_def vm_is_dead_never ca_is_dead_never)

text \<open>What one step can do, by the phase it starts from.\<close>

lemma startup_match_cases:
  assumes "startup_match cfg os ph vm ca e = Some (ph', vm', ca', e')"
  obtains
    (settled) "settled ph" "ph' = ph" "vm' = vm" "ca' = ca" "e' = e"
  | (vm_ok) e1 now d where "ph = VmStarting" "vm_start cfg os vm e = (Inr (), vm', e1)"
      "instant_now os e1 = (now, e')"
      "instant_add now (vsock_probe_delay_secs cfg + vm_boot_timeout_secs cfg) = Some d"
      "ph' = WaitingVsock d now False" "ca' = ca"
  | (vm_err) err where "ph = VmStarting" "vm_start cfg os vm e = (Inl err, vm', e')"
      "ph' = Failed err" "ca' = ca"
  | (delay) d b now where "ph = WaitingVsock d b False" "instant_now os e = (now, e')"
      "ph' = WaitingVsock d b (unat (vsock_probe_delay_secs cfg) * ns_per_sec \<le> elapsed now b)"
      "vm' = vm" "ca' = ca"
  | (late) d b now where "ph = WaitingVsock d b True" "instant_now os e = (now, e')" "d < now"
      "ph' = Failed ''vsock timeout''" "vm' = vm" "ca' = ca"
  | (probe_no) d b now e1 where "ph = WaitingVsock d b True" "instant_now os e = (now, e1)"
      "\<not> d < now" "probe_vsock cfg os e1 = (False, e')" "ph' = ph" "vm' = vm" "ca' = ca"
  | (probe_yes) d b now e1 e2 where "ph = WaitingVsock d b True" "instant_now os e = (now, e1)"
      "\<not> d < now" "probe_vsock cfg os e1 = (True, e2)" "vm_set_state os Vm_Ready vm e2 = (vm', e')"
      "ph' = CaStarting" "ca' = ca"
  | (ca_ok) e1 now d where "ph = CaStarting" "ca_start cfg (vsock_cid cfg) os ca e = (Inr (), ca', e1)"
      "instant_now os e1 = (now, e')" "instant_add now (ca_ready_timeout_secs cfg) = Some d"
      "ph' = WaitingCaPort d" "vm' = vm"
  | (ca_err) err where "ph = CaStarting" "ca_start cfg (vsock_cid cfg) os ca e = (Inl err, ca', e')"
      "ph' = Failed err" "vm' = vm"
  | (port_yes) d e1 where "ph = WaitingCaPort d" "is_port_ready cfg os e = (True, e1)"
      "ca_set_state os Ca_Ready ca e1 = (ca', e')" "ph' = Complete" "vm' = vm"
  | (port_no) d e1 now where "ph = WaitingCaPort d" "is_port_ready cfg os e = (False, e1)"
      "instant_now os e1 = (now, e')" "ph' = (if d < now then Complete else ph)" "vm' = vm" "ca' = ca"
proof (cases ph)
  case NotStarted
  then show thesis using assms by (intro that(1)) (auto simp: startup_match_def)
next
  case Complete
  then show thesis using assms by (intro that(1)) (auto simp: startup_match_def)
next
  case (Failed err)
  then show thesis using assms by (intro that(1)) (auto simp: startup_match_def)
next
  case VmStarting
  obtain r vm1 e1 where v: "vm_start cfg os vm e = (r, vm1, e1)" by (cases "vm_start cfg os vm e")
  obtain now e2 where n: "instant_now os e1 = (now, e2)" by fastforce
  show thesis
  proof (cases r)
    case (Inl err)
    then show thesis using assms VmStarting v by (intro that(3)) (auto simp: startup_match_def)
  next
    case (Inr u)
    with assms VmStarting v n obtain d where
      "instant_add now (vsock_probe_delay_secs cfg + vm_boot_timeout_secs cfg) = Some d"
      by (auto simp: startup_match_def elim!: bind_SomeE)
    with Inr show thesis using assms VmStarting v n by (intro that(2)) (auto simp: startup_match_def)
  qed
next
  case (WaitingVsock d b x)
  obtain now e1 where n: "instant_now os e = (now, e1)" by fastforce
  obtain up e2 where p: "probe_vsock cfg os e1 = (up, e2)" by fastforce
  obtain vm1 e3 where s: "vm_set_state os Vm_Ready vm e2 = (vm1, e3)" by fastforce
  consider "\<not> x" | "x" "d < now" | "x" "\<not> d < now" "\<not> up" | "x" "\<not> d < now" "up" by blast
  then show thesis
  proof cases
    case 1
    then show thesis using assms WaitingVsock n
      by (intro that(4)) (auto simp: startup_match_def split: if_splits)
  next
    case 2
    then show thesis using assms WaitingVsock n by (intro that(5)) (auto simp: startup_match_def)
  next
    case 3
    then show thesis using assms WaitingVsock n p by (intro that(6)) (auto simp: startup_match_def)
  next
    case 4
    then show thesis using assms WaitingVsock n p s
      by (intro that(7)) (auto simp: startup_match_def)
  qed
next
  case CaStarting
  obtain r ca1 e1 where c: "ca_start cfg (vsock_cid cfg) os ca e = (r, ca1, e1)"
    by (cases "ca_start cfg (vsock_cid cfg) os ca e")
  obtain now e2 where n: "instant_now os e1 = (now, e2)" by fastforce
  show thesis
  proof (cases r)
    case (Inl err)
    then show thesis using assms CaStarting c by (intro that(9)) (auto simp: startup_match_def)
  next
    case (Inr u)
    with assms CaStarting c n obtain d where "instant_add now (ca_ready_timeout_secs cfg) = Some d"
      by (auto simp: startup_match_def elim!: bind_SomeE)
    with Inr show thesis using assms CaStarting c n by (intro that(8)) (auto simp: startup_match_def)
  qed
next
  case (WaitingCaPort d)
  obtain r e1 where p: "is_port_ready cfg os e = (r, e1)" by fastforce
  obtain ca1 e2 where s: "ca_set_state os Ca_Ready ca e1 = (ca1, e2)" by fastforce
  obtain now e3 where n: "instant_now os e1 = (now, e3)" by fastforce
  show thesis
  proof (cases r)
    case True
    then show thesis using assms WaitingCaPort p s by (intro that(10)) (auto simp: startup_match_def)
  next
    case False
    then show thesis using assms WaitingCaPort p n
      by (intro that(11)) (auto simp: startup_match_def split: if_splits)
  qed
qed

lemma startup_match_inv:
  assumes "startup_match cfg os ph vm ca e = Some (ph', vm', ca', e')" "vm_inv vm" "ca_inv ca"
  shows "vm_inv vm' \<and> ca_inv ca'"
  using assms(1)
proof (cases rule: startup_match_cases)
  case (probe_yes d b now e1 e2)
  then show ?thesis using assms(3) vm_inv_ops(4) by blast
next
  case (port_yes d e1)
  then show ?thesis using assms(2) ca_inv_ops(4) by blast
qed (use assms(2,3) vm_inv_ops(5) ca_inv_ops(5) in auto)

lemma startup_match_phase_step:
  assumes "startup_match cfg os ph vm ca e = Some (ph', vm', ca', e')"
  shows "phase_step ph ph'"
  using assms
proof (cases rule: startup_match_cases)
  case (delay d b now)
  then show ?thesis
    by (cases "unat (vsock_probe_delay_secs cfg) * ns_per_sec \<le> elapsed now b")
      (auto intro: phase_step.intros)
qed (auto intro: phase_step.intros)

lemma startup_match_env:
  assumes "startup_match cfg os ph vm ca e = Some (ph', vm', ca', e')"
  shows "op_le e e'"
  using assms
proof (cases rule: startup_match_cases)
  case (vm_ok e1 now d)
  then show ?thesis using vm_start_env [OF vm_ok(2)] call_op_le(18) [of e1 os]
    by (auto intro: op_le_trans)
next
  case (vm_err err)
  then show ?thesis using vm_start_env by blast
next
  case (delay d b now)
  then show ?thesis using call_op_le(18) [of e os] by simp
next
  case (late d b now)
  then show ?thesis using call_op_le(18) [of e os] by simp
next
  case (probe_no d b now e1)
  then show ?thesis using call_op_le(18) [of e os] call_op_le(3) [of e1 os "vsock_test cfg"]
    by (auto simp: probe_vsock_def intro: op_le_trans)
next
  case (probe_yes d b now e1 e2)
  then show ?thesis using call_op_le(18) [of e os] call_op_le(3) [of e1 os "vsock_test cfg"]
      vm_set_state_env [of e2 os Vm_Ready vm] by (auto simp: probe_vsock_def intro: op_le_trans)
next
  case (ca_ok e1 now d)
  then show ?thesis using ca_start_env [OF ca_ok(2)] call_op_le(18) [of e1 os]
    by (auto intro: op_le_trans)
next
  case (ca_err err)
  then show ?thesis using ca_start_env by blast
next
  case (port_yes d e1)
  then show ?thesis using is_port_ready_env [of e cfg os] ca_set_state_env [of e1 os Ca_Ready ca]
    by (auto intro: op_le_trans)
next
  case (port_no d e1 now)
  then show ?thesis using is_port_ready_env [of e cfg os] call_op_le(18) [of e1 os]
    by (auto intro: op_le_trans)
qed simp

lemma vm_set_state_quiet [quiet_intros]: "quiet e (snd (vm_set_state os s m e))"
  using quiet_calls(8) [of e os] by (simp add: vm_set_state_def case_prod_beta Let_def)

lemma ca_set_state_quiet [quiet_intros]: "quiet e (snd (ca_set_state os s m e))"
  using quiet_calls(8) [of e os] by (simp add: ca_set_state_def case_prod_beta Let_def)

text \<open>A step that is not a start touches no process, but may run the vsock test.\<close>

lemma startup_match_runs:
  assumes "startup_match cfg os ph vm ca e = Some (ph', vm', ca', e')"
    and "ph \<noteq> VmStarting" "ph \<noteq> CaStarting"
  shows "runs_only {vsock_test cfg} e e'"
proof -
  have now: "runs_only {vsock_test cfg} a b" if "instant_now os a = (n, b)" for a b n
    using quiet_runs_only [OF quiet_calls(8) [of a os]] that by simp
  have probe: "runs_only {vsock_test cfg} a b" if "probe_vsock cfg os a = (up, b)" for a b up
    using run_command_runs [of "vsock_test cfg" a os] that by (simp add: probe_vsock_def)
  have port: "runs_only {vsock_test cfg} a b" if "is_port_ready cfg os a = (up, b)" for a b up
    using quiet_runs_only [OF is_port_ready_quiet [of a cfg os]] that by simp
  from assms(1) show ?thesis
  proof (cases rule: startup_match_cases)
    case (probe_yes d b n e1 e2)
    have "runs_only {vsock_test cfg} e2 e'"
      using quiet_runs_only [OF vm_set_state_quiet [of e2 os Vm_Ready vm]] probe_yes(5) by simp
    with now [OF probe_yes(2)] probe [OF probe_yes(4)] show ?thesis by (blast intro: runs_only_trans)
  next
    case (port_yes d e1)
    have "runs_only {vsock_test cfg} e1 e'"
      using quiet_runs_only [OF ca_set_state_quiet [of e1 os Ca_Ready ca]] port_yes(3) by simp
    with port [OF port_yes(2)] show ?thesis by (rule runs_only_trans)
  qed (use assms(2,3) now probe port runs_only_trans quiet_runs_only [OF quiet_refl] in \<open>blast+\<close>)
qed

section \<open>Properties\<close>

text \<open>
  The startup code refines the abstract phase machine: from managers that satisfy their
  invariants every call of \<open>advance_startup\<close> that returns makes one of its moves and keeps
  the invariants.
\<close>

theorem advance_startup_refines:
  assumes "vm_inv vm" "ca_inv ca" "advance_startup cfg os ph vm ca e = Some (ph', vm', ca', e')"
  shows "phase_step ph ph' \<and> vm_inv vm' \<and> ca_inv ca'"
proof -
  have m: "startup_match cfg os ph vm ca e = Some (ph', vm', ca', e')"
    using assms by (simp add: advance_startup_match)
  show ?thesis
    using startup_match_phase_step [OF m] startup_match_inv [OF m assms(1,2)] by blast
qed

theorem advance_startup_refines_witness:
  "\<exists>ph' vm' ca' e'. vm_inv vm_new \<and> ca_inv ca_new \<and>
     advance_startup default_config (sim_os_fs (\<lambda>_. Some 2000000)) VmStarting vm_new ca_new
       (sim_env sim_world) = Some (ph', vm', ca', e') \<and> phase_step VmStarting ph'"
proof -
  let ?os = "sim_os_fs (\<lambda>_. Some 2000000)"
  have i: "vm_inv vm_new" "ca_inv ca_new" by (simp_all add: vm_inv_ops(1) ca_inv_ops(1))
  have "advance_startup default_config ?os VmStarting vm_new ca_new (sim_env sim_world) \<noteq> None"
    by (simp add: advance_startup_match i startup_match_def vm_start_def validate_images_def
        required_images_def sized_images_def min_image_bytes_def spawn_with_log_def
        rotate_if_needed_def max_log_bytes_def default_defs sim_eval)
  then obtain ph' vm' ca' e' where
    a: "advance_startup default_config ?os VmStarting vm_new ca_new (sim_env sim_world)
      = Some (ph', vm', ca', e')" by (auto simp: not_None_eq)
  show ?thesis using advance_startup_refines [OF i a] i a by blast
qed

text \<open>
  C19. The startup machine never goes back: its restart branches need a manager that is idle
  or in error and still has a pid, which no operation leaves behind. So a call either stays in
  its phase or moves to a later one, never re-enters \<open>VmStarting\<close>, and starts a process
  only from \<open>VmStarting\<close> (the VM) and \<open>CaStarting\<close> (the CA): a VM that dies during
  startup is not restarted. In the other phases nothing is signalled either, and no program is
  run but the vsock test.
\<close>

theorem advance_startup_never_restarts:
  assumes "vm_inv vm" "ca_inv ca" "advance_startup cfg os ph vm ca e = Some (ph', vm', ca', e')"
  shows "(ph' = ph \<or> phase_rank ph < phase_rank ph') \<and> (ph \<noteq> VmStarting \<longrightarrow> ph' \<noteq> VmStarting) \<and>
    (ph \<noteq> VmStarting \<and> ph \<noteq> CaStarting \<longrightarrow> runs_only {vsock_test cfg} e e')"
proof -
  have m: "startup_match cfg os ph vm ca e = Some (ph', vm', ca', e')"
    using assms by (simp add: advance_startup_match)
  from startup_match_phase_step [OF m] have "phase_step ph ph'" .
  then have "ph \<noteq> VmStarting \<longrightarrow> ph' \<noteq> VmStarting" by cases auto
  then show ?thesis
    using phase_step_rank [OF startup_match_phase_step [OF m]] startup_match_runs [OF m] by blast
qed

theorem advance_startup_never_restarts_witness:
  "\<exists>ph' vm' ca' e'.
     advance_startup default_config sim_os (WaitingVsock 10 0 True) (vm_mark_dead vm_new) ca_new
       (sim_env sim_world) = Some (ph', vm', ca', e') \<and> ph' \<noteq> VmStarting \<and>
     runs_only {vsock_test default_config} (sim_env sim_world) e'"
proof -
  have i: "vm_inv (vm_mark_dead vm_new)" "ca_inv ca_new"
    by (simp_all add: vm_inv_ops(2) ca_inv_ops(1))
  have "advance_startup default_config sim_os (WaitingVsock 10 0 True) (vm_mark_dead vm_new) ca_new
      (sim_env sim_world) \<noteq> None"
    by (simp add: advance_startup_match i startup_match_def case_prod_beta Let_def)
  then obtain ph' vm' ca' e' where
    a: "advance_startup default_config sim_os (WaitingVsock 10 0 True) (vm_mark_dead vm_new) ca_new
      (sim_env sim_world) = Some (ph', vm', ca', e')" by (auto simp: not_None_eq)
  show ?thesis using advance_startup_never_restarts [OF i a] a by blast
qed

text \<open>
  C20. The boot deadline: a step that starts the VM sets it to the probe delay plus the boot
  timeout after the clock reading, the sum of the two taken modulo \<open>2 ^ 64\<close> seconds (a
  configuration whose sum overflows gets a deadline before the end of the delay), with
  the delay still to run and the VM booting.
\<close>

theorem boot_deadline:
  assumes "vm_inv vm" "ca_inv ca"
    and "advance_startup cfg os VmStarting vm ca e = Some (WaitingVsock d b x, vm', ca', e')"
  shows "d = b + ((unat (vsock_probe_delay_secs cfg) + unat (vm_boot_timeout_secs cfg)) mod 2 ^ 64)
      * ns_per_sec \<and> clock e \<le> b \<and> b = clock e' \<and> \<not> x \<and> vm_state vm' = Vm_Booting"
proof -
  have m: "startup_match cfg os VmStarting vm ca e = Some (WaitingVsock d b x, vm', ca', e')"
    using assms by (simp add: advance_startup_match)
  from m show ?thesis
  proof (cases rule: startup_match_cases)
    case (vm_ok e1 now d')
    have "op_le e e1" by (rule vm_start_env [OF vm_ok(2)])
    then show ?thesis
      using vm_ok instant_now_facts [OF vm_ok(3)] instant_add_SomeD [OF vm_ok(4)]
        vm_start_effect [OF vm_ok(2)]
      by (auto simp: op_le_def unat_word_ariths)
  qed auto
qed

theorem boot_deadline_witness:
  "\<exists>d b vm' ca' e'.
     advance_startup default_config (sim_os_fs (\<lambda>_. Some 2000000)) VmStarting vm_new ca_new
       (sim_env sim_world) = Some (WaitingVsock d b False, vm', ca', e') \<and>
     d = b + 75 * ns_per_sec \<and> vm_state vm' = Vm_Booting"
proof -
  let ?os = "sim_os_fs (\<lambda>_. Some 2000000)"
  have i: "vm_inv vm_new" "ca_inv ca_new" by (simp_all add: vm_inv_ops(1) ca_inv_ops(1))
  obtain d b vm' ca' e' where
    a: "advance_startup default_config ?os VmStarting vm_new ca_new (sim_env sim_world)
      = Some (WaitingVsock d b False, vm', ca', e')"
    by (simp add: advance_startup_match i startup_match_def vm_start_def validate_images_def
        required_images_def sized_images_def min_image_bytes_def spawn_with_log_def
        rotate_if_needed_def max_log_bytes_def default_defs sim_eval)
  show ?thesis using boot_deadline [OF i a] a by (auto simp: default_defs)
qed

text \<open>
  Waiting for the vsock ends: once the clock is past the deadline, two calls of
  \<open>advance_startup\<close>, whatever else happens to the managers in between, leave the phase
  \<open>Failed "vsock timeout"\<close>.
\<close>

theorem vsock_wait_ends:
  assumes "vm_inv vm" "ca_inv ca" "vm_inv vm2" "ca_inv ca2"
    and "b + unat (vsock_probe_delay_secs cfg) * ns_per_sec \<le> d" and "d < clock e"
    and 1: "advance_startup cfg os (WaitingVsock d b x) vm ca e = Some (ph1, vm1, ca1, e1)"
    and "clock e1 \<le> clock e2"
    and 2: "advance_startup cfg os ph1 vm2 ca2 e2 = Some (ph2, vm3, ca3, e3)"
  shows "ph2 = Failed ''vsock timeout''"
proof -
  have 1: "startup_match cfg os (WaitingVsock d b x) vm ca e = Some (ph1, vm1, ca1, e1)"
    and 2: "startup_match cfg os ph1 vm2 ca2 e2 = Some (ph2, vm3, ca3, e3)"
    using assms by (simp_all add: advance_startup_match)
  have late: "d < fst (instant_now os e)" using assms(6) instant_now_ge [of e os] by simp
  have "d < clock e2" using startup_match_env [OF 1] assms(6,8) by (auto simp: op_le_def)
  then have late2: "d < fst (instant_now os e2)" using instant_now_ge [of e2 os] by simp
  show ?thesis
  proof (cases x)
    case True
    then have "ph1 = Failed ''vsock timeout''"
      using 1 late by (auto simp: startup_match_def split: prod.splits if_splits)
    then show ?thesis using 2 by (simp add: startup_match_def)
  next
    case False
    then have "ph1 = WaitingVsock d b True"
      using 1 late assms(5) by (auto simp: startup_match_def elapsed_def split: prod.splits if_splits)
    then show ?thesis
      using 2 late2 by (auto simp: startup_match_def split: prod.splits if_splits)
  qed
qed

theorem vsock_wait_ends_witness:
  "\<exists>ph1 vm1 ca1 e1 ph2 vm3 ca3 e3.
     advance_startup default_config sim_os (WaitingVsock (75 * ns_per_sec) 0 False) vm_new ca_new
       ((sim_env sim_world)\<lparr>clock := 80 * ns_per_sec\<rparr>) = Some (ph1, vm1, ca1, e1) \<and>
     advance_startup default_config sim_os ph1 vm_new ca_new e1 = Some (ph2, vm3, ca3, e3) \<and>
     ph2 = Failed ''vsock timeout''"
proof -
  let ?e = "(sim_env sim_world)\<lparr>clock := 80 * ns_per_sec\<rparr>"
  have i: "vm_inv vm_new" "ca_inv ca_new" by (simp_all add: vm_inv_ops(1) ca_inv_ops(1))
  obtain ph1 vm1 ca1 e1 where
    1: "advance_startup default_config sim_os (WaitingVsock (75 * ns_per_sec) 0 False) vm_new ca_new ?e
      = Some (ph1, vm1, ca1, e1)" and ph1: "ph1 = WaitingVsock (75 * ns_per_sec) 0 True"
    by (simp add: advance_startup_match i startup_match_def default_defs sim_eval)
  have "advance_startup default_config sim_os ph1 vm_new ca_new e1 \<noteq> None"
    by (simp add: advance_startup_match i startup_match_def ph1 case_prod_beta Let_def)
  then obtain ph2 vm3 ca3 e3 where
    2: "advance_startup default_config sim_os ph1 vm_new ca_new e1 = Some (ph2, vm3, ca3, e3)"
    by (auto simp: not_None_eq)
  have "ph2 = Failed ''vsock timeout''"
    by (rule vsock_wait_ends [OF i i _ _ 1 order_refl 2]) (simp_all add: default_defs ns_per_sec_def)
  then show ?thesis using 1 2 by blast
qed

text \<open>
  C21. Order of the boot: the machine goes on to \<open>CaStarting\<close> only in a step that ran the
  vsock test successfully and set the VM ready, and a step starts a process only in
  \<open>VmStarting\<close> (then it is the VM) or in \<open>CaStarting\<close> (then it is the CA).
\<close>

theorem ca_starts_after_vsock:
  assumes "vm_inv vm" "ca_inv ca" "advance_startup cfg os ph vm ca e = Some (ph', vm', ca', e')"
  shows "\<exists>evs. trace e' = trace e @ evs \<and>
    (ph' = CaStarting \<longrightarrow> vm_state vm' = Vm_Ready \<and> (\<exists>t. (t, EvRun (vsock_test cfg) True) \<in> set evs)) \<and>
    (\<forall>(c, x) \<in> set (spawned evs).
       ph = VmStarting \<and> c = vm_command cfg \<or> ph = CaStarting \<and> c = ca_command cfg (vsock_cid cfg))"
proof -
  have m: "startup_match cfg os ph vm ca e = Some (ph', vm', ca', e')"
    using assms by (simp add: advance_startup_match)
  show ?thesis
  proof (cases "ph = VmStarting \<or> ph = CaStarting")
    case False
    then obtain evs where evs: "trace e' = trace e @ evs" "spawned evs = []"
      using startup_match_runs [OF m] by (auto simp: runs_only_def)
    from m have "ph' = CaStarting \<longrightarrow> vm_state vm' = Vm_Ready \<and> (\<exists>t. (t, EvRun (vsock_test cfg) True) \<in> set evs)"
    proof (cases rule: startup_match_cases)
      case (probe_yes d b now e1 e2)
      have "trace e2 = trace e1 @ [(clock e2, EvRun (vsock_test cfg) True)]"
        using sys_facts(1) [OF probe_yes(4) [unfolded probe_vsock_def run_command_def]] by simp
      moreover have "trace e1 = trace e" using instant_now_facts [OF probe_yes(2)] by simp
      moreover have "trace e' = trace e2" and "vm_state vm' = Vm_Ready"
        using probe_yes(5) instant_now_facts [of os e2]
        by (auto simp: vm_set_state_def Let_def split: prod.splits)
      ultimately show ?thesis using evs by auto
    qed (use False in auto)
    then show ?thesis using evs by auto
  next
    case True
    from m show ?thesis
    proof (cases rule: startup_match_cases)
      case (vm_ok e1 now d)
      then show ?thesis
        using vm_start_effect [OF vm_ok(2)] instant_now_facts [OF vm_ok(3)] by auto
    next
      case (vm_err err)
      then show ?thesis using vm_start_effect [OF vm_err(2)] by (auto split: if_splits)
    next
      case (ca_ok e1 now d)
      then show ?thesis
        using ca_start_effect [OF ca_ok(2)] instant_now_facts [OF ca_ok(3)] by auto
    next
      case (ca_err err)
      then show ?thesis using ca_start_effect [OF ca_err(2)] by (auto split: if_splits)
    qed (use True in auto)
  qed
qed

theorem ca_starts_after_vsock_witness:
  "\<exists>vm' ca' e' evs.
     advance_startup default_config sim_os (WaitingVsock 10 0 True) vm_new ca_new (sim_env sim_world)
       = Some (CaStarting, vm', ca', e') \<and> trace e' = trace (sim_env sim_world) @ evs \<and>
     vm_state vm' = Vm_Ready \<and> (\<exists>t. (t, EvRun (vsock_test default_config) True) \<in> set evs)"
proof -
  have i: "vm_inv vm_new" "ca_inv ca_new" by (simp_all add: vm_inv_ops(1) ca_inv_ops(1))
  obtain vm' ca' e' where
    a: "advance_startup default_config sim_os (WaitingVsock 10 0 True) vm_new ca_new (sim_env sim_world)
      = Some (CaStarting, vm', ca', e')"
    by (simp add: advance_startup_match i startup_match_def probe_vsock_def vsock_test_def
        vm_set_state_def default_defs sim_eval)
  show ?thesis using ca_starts_after_vsock [OF i a] a by auto
qed

end
