(* ===== verification/Ipc.thy ===== *)
theory Ipc
  imports Startup Log_Collector
begin

text \<open>
  The control socket of src/src/ipc.rs: one client connection, its line framing, the
  commands and their answers. \<open>serde_json\<close> is a parameter (the record \<open>json\<close>): it
  parses a request, looks a string or unsigned member up (\<open>req[k].as_str()\<close>,
  \<open>req[k].as_u64()\<close>), and prints an answer. Answers are kept as the members
  \<open>json!\<close> lists, in source order. \<open>usize\<close> is 64 bits wide on the target.
\<close>

section \<open>Answers\<close>

datatype jval = JBool bool | JStr string | JNum nat

type_synonym response = "(string \<times> jval) list"

record 'v json =
  js_parse :: "string \<Rightarrow> string + 'v"
  js_get_str :: "'v \<Rightarrow> string \<Rightarrow> string option"
  js_get_u64 :: "'v \<Rightarrow> string \<Rightarrow> u64 option"
  js_to_string :: "response \<Rightarrow> string option"

definition max_request_line_bytes :: nat where
  "max_request_line_bytes = 64 * 1024"

definition max_tail_lines :: nat where
  "max_tail_lines = 10000"

fun vm_state_name :: "vm_state \<Rightarrow> string" where
  "vm_state_name Vm_Idle = ''idle''"
| "vm_state_name Vm_Starting = ''starting''"
| "vm_state_name Vm_Booting = ''booting''"
| "vm_state_name Vm_Ready = ''ready''"
| "vm_state_name Vm_Stopping = ''stopping''"
| "vm_state_name Vm_Error = ''error''"

fun ca_state_name :: "ca_state \<Rightarrow> string" where
  "ca_state_name Ca_Idle = ''idle''"
| "ca_state_name Ca_Starting = ''starting''"
| "ca_state_name Ca_Running = ''running''"
| "ca_state_name Ca_Ready = ''ready''"
| "ca_state_name Ca_Stopping = ''stopping''"
| "ca_state_name Ca_Error = ''error''"

text \<open>
  The derived \<open>Debug\<close> of the phase: instants as seconds and nanoseconds, strings quoted
  with their ASCII escapes (other bytes are kept as they are).
\<close>

definition hex_digit :: "nat \<Rightarrow> char" where
  "hex_digit n = (if n < 10 then char_of (48 + n) else char_of (87 + n))"

definition escape_char :: "char \<Rightarrow> string" where
  "escape_char c =
     (let n = of_char c :: nat in
      if n = 0 then [CHR 0x5C, CHR ''0'']
      else if n = 9 then [CHR 0x5C, CHR ''t'']
      else if n = 10 then [CHR 0x5C, CHR ''n'']
      else if n = 13 then [CHR 0x5C, CHR ''r'']
      else if n = 34 then [CHR 0x5C, CHR 0x22]
      else if n = 92 then [CHR 0x5C, CHR 0x5C]
      else if n < 16 then [CHR 0x5C, CHR ''u'', CHR ''{'', hex_digit n, CHR ''}'']
      else if n < 32 \<or> n = 127 then
        [CHR 0x5C, CHR ''u'', CHR ''{'', hex_digit (n div 16), hex_digit (n mod 16), CHR ''}'']
      else [c])"

definition debug_str :: "string \<Rightarrow> string" where
  "debug_str s = [CHR 0x22] @ concat (map escape_char s) @ [CHR 0x22]"

definition debug_instant :: "instant \<Rightarrow> string" where
  "debug_instant t =
     ''Instant { tv_sec: '' @ dec (t div ns_per_sec) @ '', tv_nsec: '' @ dec (t mod ns_per_sec) @ '' }''"

fun debug_phase :: "startup_phase \<Rightarrow> string" where
  "debug_phase NotStarted = ''NotStarted''"
| "debug_phase VmStarting = ''VmStarting''"
| "debug_phase (WaitingVsock d b x) =
     ''WaitingVsock { deadline: '' @ debug_instant d @ '', boot_start: '' @ debug_instant b @
     '', delay_done: '' @ (if x then ''true'' else ''false'') @ '' }''"
| "debug_phase CaStarting = ''CaStarting''"
| "debug_phase (WaitingCaPort d) = ''WaitingCaPort { deadline: '' @ debug_instant d @ '' }''"
| "debug_phase Complete = ''Complete''"
| "debug_phase (Failed err) = ''Failed('' @ debug_str err @ '')''"

definition ok_msg :: "string \<Rightarrow> response" where
  "ok_msg m = [(''ok'', JBool True), (''msg'', JStr m)]"

definition err_msg :: "string \<Rightarrow> response" where
  "err_msg m = [(''ok'', JBool False), (''error'', JStr m)]"

definition write_response :: "'v json \<Rightarrow> 'w os \<Rightarrow> response \<Rightarrow> 'w env \<Rightarrow> bool \<times> 'w env" where
  "write_response js os value e =
     (let s = (case js_to_string js value of
                 Some s \<Rightarrow> s
               | None \<Rightarrow> ''{'' @ [CHR 0x22] @ ''ok'' @ [CHR 0x22] @ '':false}'')
      in reply os (s @ [nl]) e)"

section \<open>Commands\<close>

definition handle_status ::
  "'w os \<Rightarrow> vm_manager \<Rightarrow> ca_manager \<Rightarrow> startup_phase \<Rightarrow> config \<Rightarrow> instant \<Rightarrow> 'w env
   \<Rightarrow> response \<times> 'w env" where
  "handle_status os vm ca ph cfg started_at e =
     (let (now, e1) = instant_now os e in
      ([(''ok'', JBool True),
        (''vm'', JStr (vm_state_name (vm_state vm))),
        (''ca'', JStr (ca_state_name (ca_state ca))),
        (''startup_phase'', JStr (debug_phase ph)),
        (''vm_cid'', JNum (unat (vsock_cid cfg))),
        (''ca_port'', JNum (unat (ca_port cfg))),
        (''uptime_secs'', JNum (elapsed now started_at div ns_per_sec))], e1))"

definition handle_start_all ::
  "config \<Rightarrow> 'w os \<Rightarrow> vm_manager \<Rightarrow> 'w env \<Rightarrow> response \<times> vm_manager \<times> 'w env" where
  "handle_start_all cfg os vm e =
     (case vm_start cfg os vm e of
        (Inl err, vm1, e1) \<Rightarrow> (err_msg (''VM: '' @ err), vm1, e1)
      | (Inr _, vm1, e1) \<Rightarrow> (ok_msg ''starting'', vm1, e1))"

definition handle_stop_all ::
  "config \<Rightarrow> 'w os \<Rightarrow> vm_manager \<Rightarrow> ca_manager \<Rightarrow> 'w env
   \<Rightarrow> (response \<times> vm_manager \<times> ca_manager \<times> 'w env) option" where
  "handle_stop_all cfg os vm ca e = do {
     (ca1, e1) \<leftarrow> ca_stop cfg os ca e;
     (vm1, e2) \<leftarrow> vm_stop cfg os vm e1;
     Some (ok_msg ''stopped'', vm1, ca1, e2)
   }"

definition handle_start_vm ::
  "config \<Rightarrow> 'w os \<Rightarrow> vm_manager \<Rightarrow> 'w env \<Rightarrow> response \<times> vm_manager \<times> 'w env" where
  "handle_start_vm cfg os vm e =
     (case vm_start cfg os vm e of
        (Inr _, vm1, e1) \<Rightarrow> (ok_msg ''vm starting'', vm1, e1)
      | (Inl err, vm1, e1) \<Rightarrow> (err_msg err, vm1, e1))"

definition handle_stop_vm ::
  "config \<Rightarrow> 'w os \<Rightarrow> vm_manager \<Rightarrow> 'w env \<Rightarrow> (response \<times> vm_manager \<times> 'w env) option" where
  "handle_stop_vm cfg os vm e = do {
     (vm1, e1) \<leftarrow> vm_stop cfg os vm e;
     Some (ok_msg ''vm stopped'', vm1, e1)
   }"

definition handle_start_ca ::
  "config \<Rightarrow> 'w os \<Rightarrow> ca_manager \<Rightarrow> 'w env \<Rightarrow> response \<times> ca_manager \<times> 'w env" where
  "handle_start_ca cfg os ca e =
     (case ca_start cfg (vsock_cid cfg) os ca e of
        (Inr _, ca1, e1) \<Rightarrow> (ok_msg ''ca starting'', ca1, e1)
      | (Inl err, ca1, e1) \<Rightarrow> (err_msg err, ca1, e1))"

definition handle_stop_ca ::
  "config \<Rightarrow> 'w os \<Rightarrow> ca_manager \<Rightarrow> 'w env \<Rightarrow> (response \<times> ca_manager \<times> 'w env) option" where
  "handle_stop_ca cfg os ca e = do {
     (ca1, e1) \<leftarrow> ca_stop cfg os ca e;
     Some (ok_msg ''ca stopped'', ca1, e1)
   }"

definition log_source :: "config \<Rightarrow> string \<Rightarrow> path option" where
  "log_source cfg source =
     (if source = ''vm'' \<or> source = ''pvm'' then Some (path_join (log_dir cfg) ''pvm.log'')
      else if source = ''ca'' then Some (path_join (log_dir cfg) ''ca.log'')
      else if source = ''daemon'' then Some (path_join (log_dir cfg) ''daemon.log'')
      else None)"

definition handle_tail_log ::
  "'v json \<Rightarrow> config \<Rightarrow> 'w os \<Rightarrow> 'v \<Rightarrow> 'w env \<Rightarrow> response \<times> 'w env" where
  "handle_tail_log js cfg os req e =
     (let source = (case js_get_str js req ''source'' of Some s \<Rightarrow> s | None \<Rightarrow> ''daemon'');
          requested = unat (case js_get_u64 js req ''lines'' of Some n \<Rightarrow> n | None \<Rightarrow> 200);
          n = min requested max_tail_lines
      in case log_source cfg source of
           None \<Rightarrow> (err_msg (''unknown source: '' @ source), e)
         | Some log_path \<Rightarrow>
             (let (content, e1) = tail_log os log_path n e
              in ([(''ok'', JBool True), (''content'', JStr content)], e1)))"

definition dispatch ::
  "'v json \<Rightarrow> config \<Rightarrow> 'w os \<Rightarrow> startup_phase \<Rightarrow> instant \<Rightarrow> 'v \<Rightarrow> vm_manager \<Rightarrow> ca_manager \<Rightarrow> 'w env
   \<Rightarrow> (response \<times> vm_manager \<times> ca_manager \<times> 'w env) option" where
  "dispatch js cfg os ph started_at req vm ca e =
     (let cmd = (case js_get_str js req ''cmd'' of Some s \<Rightarrow> s | None \<Rightarrow> '''') in
      if cmd = ''ping'' then Some (ok_msg ''pong'', vm, ca, e)
      else if cmd = ''status'' then
        (let (r, e1) = handle_status os vm ca ph cfg started_at e in Some (r, vm, ca, e1))
      else if cmd = ''start_all'' then
        (let (r, vm1, e1) = handle_start_all cfg os vm e in Some (r, vm1, ca, e1))
      else if cmd = ''stop_all'' then handle_stop_all cfg os vm ca e
      else if cmd = ''start_vm'' then
        (let (r, vm1, e1) = handle_start_vm cfg os vm e in Some (r, vm1, ca, e1))
      else if cmd = ''stop_vm'' then
        do { (r, vm1, e1) \<leftarrow> handle_stop_vm cfg os vm e; Some (r, vm1, ca, e1) }
      else if cmd = ''start_ca'' then
        (let (r, ca1, e1) = handle_start_ca cfg os ca e in Some (r, vm, ca1, e1))
      else if cmd = ''stop_ca'' then
        do { (r, ca1, e1) \<leftarrow> handle_stop_ca cfg os ca e; Some (r, vm, ca1, e1) }
      else if cmd = ''tail_log'' then
        (let (r, e1) = handle_tail_log js cfg os req e in Some (r, vm, ca, e1))
      else Some (err_msg (''unknown cmd: '' @ cmd), vm, ca, e))"

section \<open>The client loop\<close>

text \<open>
  \<open>reader.take(n).read_line\<close>: up to and including the first line feed, at most \<open>n\<close>
  bytes. \<open>LineEnd\<close> is end of file with nothing read, a read error, or invalid UTF-8.
\<close>

definition next_chunk :: "nat \<Rightarrow> string \<Rightarrow> string \<times> string" where
  "next_chunk n bs =
     (let k = min n (Suc (length (takeWhile (\<lambda>c. c \<noteq> nl) (take n bs)))) in (take k bs, drop k bs))"

datatype line_read = LineEnd | Line string string

definition read_line :: "nat \<Rightarrow> string \<Rightarrow> read_end \<Rightarrow> line_read" where
  "read_line n bs en =
     (let (chunk, rest) = next_chunk n bs;
          cut_short = (length chunk < n \<and> \<not> (chunk \<noteq> [] \<and> last chunk = nl))
      in if cut_short \<and> en = ReadError then LineEnd
         else if chunk = [] then LineEnd
         else if utf8_valid chunk then Line chunk rest
         else LineEnd)"

definition request_text :: "string \<Rightarrow> string" where
  "request_text raw = trim_end_matches cr (trim_end_matches nl raw)"

lemma read_line_shorter: "read_line n bs en = Line raw rest \<Longrightarrow> length rest < length bs"
  by (auto simp: read_line_def next_chunk_def Let_def split: if_splits)

function client_loop ::
  "'v json \<Rightarrow> config \<Rightarrow> 'w os \<Rightarrow> startup_phase \<Rightarrow> instant \<Rightarrow> string \<Rightarrow> read_end
   \<Rightarrow> vm_manager \<Rightarrow> ca_manager \<Rightarrow> 'w env \<Rightarrow> (vm_manager \<times> ca_manager \<times> 'w env) option" where
  "client_loop js cfg os ph started_at bs en vm ca e =
     (let e1 = recv_wait os e in
      case read_line max_request_line_bytes bs en of
        LineEnd \<Rightarrow> Some (vm, ca, e1)
      | Line raw rest \<Rightarrow>
          (let line = request_text raw in
           if line = [] then client_loop js cfg os ph started_at rest en vm ca e1
           else case js_parse js line of
             Inl err \<Rightarrow>
               (let (_, e2) = write_response js os (err_msg err) e1
                in client_loop js cfg os ph started_at rest en vm ca e2)
           | Inr req \<Rightarrow> do {
               (resp, vm1, ca1, e2) \<leftarrow> dispatch js cfg os ph started_at req vm ca e1;
               let (ok, e3) = write_response js os resp e2;
               if ok then client_loop js cfg os ph started_at rest en vm1 ca1 e3
               else Some (vm1, ca1, e3)
             }))"
  by pat_completeness auto
termination
  by (relation "measure (\<lambda>(js, cfg, os, ph, st, bs, en, vm, ca, e). length bs)")
    (auto dest: read_line_shorter [OF sym] read_line_shorter)

declare client_loop.simps [simp del]

definition handle_client ::
  "'v json \<Rightarrow> config \<Rightarrow> 'w os \<Rightarrow> connection \<Rightarrow> startup_phase \<Rightarrow> instant
   \<Rightarrow> vm_manager \<Rightarrow> ca_manager \<Rightarrow> 'w env \<Rightarrow> (vm_manager \<times> ca_manager \<times> 'w env) option" where
  "handle_client js cfg os conn ph started_at vm ca e =
     client_loop js cfg os ph started_at (conn_bytes conn) (conn_end conn) vm ca e"

section \<open>What a command does\<close>

lemma bind_Some_iff: "Option.bind m f = Some r \<longleftrightarrow> (\<exists>x. m = Some x \<and> f x = Some r)"
  by (cases m) auto

lemma handle_tail_log_frame:
  "quiet e (snd (handle_tail_log js cfg os req e))" "op_le e (snd (handle_tail_log js cfg os req e))"
  using tail_log_quiet tail_log_env
  by (auto simp: handle_tail_log_def case_prod_beta Let_def split: option.split)

lemma handle_status_frame:
  "quiet e (snd (handle_status os vm ca ph cfg t e))" "op_le e (snd (handle_status os vm ca ph cfg t e))"
  using quiet_calls(8) call_op_le(18) by (auto simp: handle_status_def case_prod_beta Let_def)

text \<open>The command of a request, and what each command turns into.\<close>

definition request_cmd :: "'v json \<Rightarrow> 'v \<Rightarrow> string" where
  "request_cmd js req = (case js_get_str js req ''cmd'' of Some s \<Rightarrow> s | None \<Rightarrow> '''')"

lemma dispatch_cases:
  assumes "dispatch js cfg os ph t req vm ca e = Some (resp, vm', ca', e')"
  obtains
    (reads) "vm' = vm" "ca' = ca" "quiet e e'" "op_le e e'"
      "request_cmd js req \<notin> {''start_all'', ''stop_all'', ''start_vm'', ''stop_vm'', ''start_ca'', ''stop_ca''}"
  | (starts_vm) r where "request_cmd js req = ''start_all'' \<or> request_cmd js req = ''start_vm''"
      "vm_start cfg os vm e = (r, vm', e')" "ca' = ca" "hd resp = (''ok'', JBool (\<not> isl r))"
  | (stops_all) e1 where "request_cmd js req = ''stop_all''" "ca_stop cfg os ca e = Some (ca', e1)"
      "vm_stop cfg os vm e1 = Some (vm', e')"
  | (stops_vm) "request_cmd js req = ''stop_vm''" "vm_stop cfg os vm e = Some (vm', e')" "ca' = ca"
  | (starts_ca) r where "request_cmd js req = ''start_ca''"
      "ca_start cfg (vsock_cid cfg) os ca e = (r, ca', e')" "vm' = vm" "hd resp = (''ok'', JBool (\<not> isl r))"
  | (stops_ca) "request_cmd js req = ''stop_ca''" "ca_stop cfg os ca e = Some (ca', e')" "vm' = vm"
proof -
  let ?cmd = "request_cmd js req"
  note d = assms [unfolded dispatch_def request_cmd_def [symmetric] Let_def]
  consider "?cmd = ''start_all''" | "?cmd = ''stop_all''" | "?cmd = ''start_vm''" | "?cmd = ''stop_vm''"
    | "?cmd = ''start_ca''" | "?cmd = ''stop_ca''"
    | "?cmd \<notin> {''start_all'', ''stop_all'', ''start_vm'', ''stop_vm'', ''start_ca'', ''stop_ca''}"
    by auto
  then show thesis
  proof cases
    case 1
    with d show thesis
      by (intro that(2) [of "fst (vm_start cfg os vm e)"])
        (auto simp: handle_start_all_def ok_msg_def err_msg_def split: prod.splits sum.splits)
  next
    case 2
    with d show thesis
      by (auto simp: handle_stop_all_def bind_Some_iff intro: that(3))
  next
    case 3
    with d show thesis
      by (intro that(2) [of "fst (vm_start cfg os vm e)"])
        (auto simp: handle_start_vm_def ok_msg_def err_msg_def split: prod.splits sum.splits)
  next
    case 4
    with d show thesis
      by (auto simp: handle_stop_vm_def bind_Some_iff intro: that(4))
  next
    case 5
    with d show thesis
      by (intro that(5) [of "fst (ca_start cfg (vsock_cid cfg) os ca e)"])
        (auto simp: handle_start_ca_def ok_msg_def err_msg_def split: prod.splits sum.splits)
  next
    case 6
    with d show thesis
      by (auto simp: handle_stop_ca_def bind_Some_iff intro: that(6))
  next
    case 7
    with d have "vm' = vm \<and> ca' = ca \<and> quiet e e' \<and> op_le e e'"
      using handle_tail_log_frame [of e js cfg os req] handle_status_frame [of e os vm ca ph cfg t]
      by (auto split: if_splits prod.splits)
    with 7 show thesis by (intro that(1)) auto
  qed
qed

lemma dispatch_op_le:
  assumes "dispatch js cfg os ph t req vm ca e = Some (resp, vm', ca', e')"
  shows "op_le e e'"
  using assms
  by (cases rule: dispatch_cases)
    (blast intro: vm_start_env vm_stop_env ca_start_env ca_stop_env op_le_trans)+

lemma dispatch_inv:
  assumes "dispatch js cfg os ph t req vm ca e = Some (resp, vm', ca', e')" "vm_inv vm" "ca_inv ca"
  shows "vm_inv vm' \<and> ca_inv ca'"
  using assms(1)
  by (cases rule: dispatch_cases)
    (use assms(2,3) in \<open>blast intro: vm_inv_ops(5,6) ca_inv_ops(5,6)\<close>)+

section \<open>The loop\<close>

lemma client_loop_step:
  assumes "client_loop js cfg os ph t bs en vm ca e = Some (vm', ca', e')"
  obtains
    (finish) "read_line max_request_line_bytes bs en = LineEnd" "vm' = vm" "ca' = ca" "e' = recv_wait os e"
  | (blank) raw rest where "read_line max_request_line_bytes bs en = Line raw rest"
      "request_text raw = []"
      "client_loop js cfg os ph t rest en vm ca (recv_wait os e) = Some (vm', ca', e')"
  | (bad) raw rest err where "read_line max_request_line_bytes bs en = Line raw rest"
      "request_text raw \<noteq> []" "js_parse js (request_text raw) = Inl err"
      "client_loop js cfg os ph t rest en vm ca
         (snd (write_response js os (err_msg err) (recv_wait os e))) = Some (vm', ca', e')"
  | (served) raw rest req resp vm1 ca1 e2 e3 where
      "read_line max_request_line_bytes bs en = Line raw rest"
      "request_text raw \<noteq> []" "js_parse js (request_text raw) = Inr req"
      "dispatch js cfg os ph t req vm ca (recv_wait os e) = Some (resp, vm1, ca1, e2)"
      "write_response js os resp e2 = (True, e3)"
      "client_loop js cfg os ph t rest en vm1 ca1 e3 = Some (vm', ca', e')"
  | (gone) raw rest req resp e2 where
      "read_line max_request_line_bytes bs en = Line raw rest"
      "request_text raw \<noteq> []" "js_parse js (request_text raw) = Inr req"
      "dispatch js cfg os ph t req vm ca (recv_wait os e) = Some (resp, vm', ca', e2)"
      "write_response js os resp e2 = (False, e')"
proof (cases "read_line max_request_line_bytes bs en")
  case LineEnd
  then show thesis using assms
    by (intro that(1)) (auto simp: client_loop.simps [of js cfg os ph t bs])
next
  case (Line raw rest)
  note unf = client_loop.simps [of js cfg os ph t bs]
  show thesis
  proof (cases "request_text raw = []")
    case True
    then show thesis using assms Line by (intro that(2)) (auto simp: unf)
  next
    case ne: False
    show thesis
    proof (cases "js_parse js (request_text raw)")
      case (Inl err)
      then show thesis using assms Line ne
        by (intro that(3)) (auto simp: unf case_prod_beta)
    next
      case (Inr req)
      with assms Line ne obtain resp vm1 ca1 e2 where
        d: "dispatch js cfg os ph t req vm ca (recv_wait os e) = Some (resp, vm1, ca1, e2)"
        by (auto simp: unf bind_Some_iff)
      obtain ok e3 where w: "write_response js os resp e2 = (ok, e3)" by fastforce
      show thesis
      proof (cases ok)
        case True
        then show thesis using assms Line ne Inr d w by (intro that(4)) (auto simp: unf)
      next
        case False
        then show thesis using assms Line ne Inr d w by (intro that(5)) (auto simp: unf)
      qed
    qed
  qed
qed

lemma write_response_env_le: "env_le e (snd (write_response js os r e))"
  by (simp add: write_response_def Let_def loop_call_env_le)

text \<open>An induction rule for facts about a served connection.\<close>

lemma client_loop_induct [consumes 1, case_names finish blank bad served gone]:
  assumes "client_loop js cfg os ph t bs en vm ca e = Some (vm', ca', e')"
    and finish: "\<And>bs vm ca e. read_line max_request_line_bytes bs en = LineEnd \<Longrightarrow>
      P bs vm ca e vm ca (recv_wait os e)"
    and blank: "\<And>bs raw rest vm ca e vm' ca' e'.
      read_line max_request_line_bytes bs en = Line raw rest \<Longrightarrow> request_text raw = [] \<Longrightarrow>
      P rest vm ca (recv_wait os e) vm' ca' e' \<Longrightarrow> P bs vm ca e vm' ca' e'"
    and bad: "\<And>bs raw rest err vm ca e vm' ca' e'.
      read_line max_request_line_bytes bs en = Line raw rest \<Longrightarrow> request_text raw \<noteq> [] \<Longrightarrow>
      js_parse js (request_text raw) = Inl err \<Longrightarrow>
      P rest vm ca (snd (write_response js os (err_msg err) (recv_wait os e))) vm' ca' e' \<Longrightarrow>
      P bs vm ca e vm' ca' e'"
    and served: "\<And>bs raw rest req resp vm1 ca1 e2 e3 vm ca e vm' ca' e'.
      read_line max_request_line_bytes bs en = Line raw rest \<Longrightarrow> request_text raw \<noteq> [] \<Longrightarrow>
      js_parse js (request_text raw) = Inr req \<Longrightarrow>
      dispatch js cfg os ph t req vm ca (recv_wait os e) = Some (resp, vm1, ca1, e2) \<Longrightarrow>
      write_response js os resp e2 = (True, e3) \<Longrightarrow> P rest vm1 ca1 e3 vm' ca' e' \<Longrightarrow>
      P bs vm ca e vm' ca' e'"
    and gone: "\<And>bs raw rest req resp e2 vm ca e vm' ca' e'.
      read_line max_request_line_bytes bs en = Line raw rest \<Longrightarrow> request_text raw \<noteq> [] \<Longrightarrow>
      js_parse js (request_text raw) = Inr req \<Longrightarrow>
      dispatch js cfg os ph t req vm ca (recv_wait os e) = Some (resp, vm', ca', e2) \<Longrightarrow>
      write_response js os resp e2 = (False, e') \<Longrightarrow> P bs vm ca e vm' ca' e'"
  shows "P bs vm ca e vm' ca' e'"
  using assms(1)
proof (induction "length bs" arbitrary: bs vm ca e rule: less_induct)
  case less
  from less.prems show ?case
  proof (cases rule: client_loop_step)
    case finish
    then show ?thesis using assms(2) by simp
  next
    case (blank raw rest)
    show ?thesis
      by (rule assms(3) [OF blank(1,2) less.hyps [OF read_line_shorter [OF blank(1)] blank(3)]])
  next
    case (bad raw rest err)
    show ?thesis
      by (rule assms(4) [OF bad(1-3) less.hyps [OF read_line_shorter [OF bad(1)] bad(4)]])
  next
    case (served raw rest req resp vm1 ca1 e2 e3)
    show ?thesis
      by (rule assms(5) [OF served(1-5) less.hyps [OF read_line_shorter [OF served(1)] served(6)]])
  next
    case (gone raw rest req resp e2)
    then show ?thesis by (rule assms(6))
  qed
qed

lemma client_loop_env_le:
  assumes "client_loop js cfg os ph t bs en vm ca e = Some (vm', ca', e')"
  shows "env_le e e'"
  using assms
proof (induct rule: client_loop_induct)
  case (finish bs vm ca e)
  then show ?case using op_le_env_le [OF call_op_le(14)] by blast
next
  case (blank bs raw rest vm ca e vm' ca' e')
  then show ?case using op_le_env_le [OF call_op_le(14)] env_le_trans by blast
next
  case (bad bs raw rest err vm ca e vm' ca' e')
  then show ?case
    using op_le_env_le [OF call_op_le(14)] write_response_env_le env_le_trans by metis
next
  case (served bs raw rest req resp vm1 ca1 e2 e3 vm ca e vm' ca' e')
  have "env_le e e2"
    using op_le_env_le [OF call_op_le(14)] op_le_env_le [OF dispatch_op_le [OF served(4)]]
      env_le_trans by blast
  moreover have "env_le e2 e3" using write_response_env_le [of e2 js os resp] served(5) by simp
  ultimately show ?case using served(6) env_le_trans by blast
next
  case (gone bs raw rest req resp e2 vm ca e vm' ca' e')
  have "env_le e e2"
    using op_le_env_le [OF call_op_le(14)] op_le_env_le [OF dispatch_op_le [OF gone(4)]]
      env_le_trans by blast
  moreover have "env_le e2 e'" using write_response_env_le [of e2 js os resp] gone(5) by simp
  ultimately show ?case using env_le_trans by blast
qed

section \<open>Properties\<close>

text \<open>
  A JSON library for the witnesses: a request is its command, written out, and every
  answer prints as a fixed text.
\<close>

definition sim_json :: "string json" where
  "sim_json =
     \<lparr>js_parse = (\<lambda>s. if hd s = CHR ''!'' then Inl ''expected value'' else Inr s),
      js_get_str = (\<lambda>v k. if k = ''cmd'' then Some v else None),
      js_get_u64 = (\<lambda>_ _. None), js_to_string = (\<lambda>_. Some ''{}'')\<rparr>"

text \<open>
  The commands that only read (\<open>ping\<close>, \<open>status\<close>, \<open>tail_log\<close>, an unknown or
  missing command) always return, leave both managers as they are and touch no process.
\<close>

theorem ipc_read_commands:
  assumes "request_cmd js req \<notin>
    {''start_all'', ''stop_all'', ''start_vm'', ''stop_vm'', ''start_ca'', ''stop_ca''}"
  shows "\<exists>resp e'. dispatch js cfg os ph t req vm ca e = Some (resp, vm, ca, e') \<and> quiet e e'"
proof -
  have "dispatch js cfg os ph t req vm ca e \<noteq> None"
    using assms
    by (auto simp: dispatch_def request_cmd_def [symmetric] Let_def case_prod_beta)
  then obtain resp vm' ca' e' where
    d: "dispatch js cfg os ph t req vm ca e = Some (resp, vm', ca', e')"
    by (metis not_None_eq prod_cases4)
  from d have "vm' = vm \<and> ca' = ca \<and> quiet e e'"
    by (cases rule: dispatch_cases) (use assms in auto)
  then show ?thesis using d by blast
qed

theorem ipc_read_commands_witness:
  "\<exists>resp e'. dispatch sim_json default_config sim_os NotStarted 0 ''reboot'' vm_new ca_new (sim_env sim_world)
     = Some (resp, vm_new, ca_new, e') \<and> quiet (sim_env sim_world) e'"
  by (rule ipc_read_commands) (simp add: request_cmd_def sim_json_def)

text \<open>
  C31. What a command may touch. \<open>start_all\<close> and \<open>start_vm\<close> leave the CA manager alone,
  signal nothing and start at most the VM; they answer ok exactly when it was started and is
  owned. \<open>start_ca\<close> does the same for the CA. \<open>stop_vm\<close> leaves the CA manager alone and
  only stops the VM's process, its children and (by name) \<open>crosvm\<close>; \<open>stop_ca\<close> only kills
  the CA's process; \<open>stop_all\<close> does the second and then the first. Any other command
  changes no manager and starts, runs and signals nothing. In particular \<open>start_all\<close> does
  not start the CA.
\<close>

theorem ipc_command_scope:
  assumes "dispatch js cfg os ph t req vm ca e = Some (resp, vm', ca', e')"
  shows "\<exists>evs. trace e' = trace e @ evs \<and>
    (if request_cmd js req \<in> {''start_all'', ''start_vm''}
     then ca' = ca \<and> sent_signals evs = [] \<and> commands evs = [] \<and>
       (if hd resp = (''ok'', JBool True)
        then \<exists>p. spawned evs = [(vm_command cfg, Inr p)] \<and> vm_child_pid vm' = Some p
        else vm_child_pid vm' = vm_child_pid vm \<and>
          (\<forall>(c, x) \<in> set (spawned evs). c = vm_command cfg \<and> isl x))
     else if request_cmd js req = ''start_ca''
     then vm' = vm \<and> sent_signals evs = [] \<and> commands evs = [] \<and>
       (if hd resp = (''ok'', JBool True)
        then \<exists>p. spawned evs = [(ca_command cfg (vsock_cid cfg), Inr p)] \<and> ca_child_pid ca' = Some p
        else ca_child_pid ca' = ca_child_pid ca \<and>
          (\<forall>(c, x) \<in> set (spawned evs). c = ca_command cfg (vsock_cid cfg) \<and> isl x))
     else if request_cmd js req = ''stop_vm''
     then ca' = ca \<and> vm_child_pid vm' = None \<and> vm_stopped cfg (vm_child_pid vm) evs
     else if request_cmd js req = ''stop_ca''
     then vm' = vm \<and> ca_child_pid ca' = None \<and> ca_stopped cfg (ca_child_pid ca) evs
     else if request_cmd js req = ''stop_all''
     then vm_child_pid vm' = None \<and> ca_child_pid ca' = None \<and>
       (\<exists>evs1 evs2. evs = evs1 @ evs2 \<and> ca_stopped cfg (ca_child_pid ca) evs1 \<and>
          vm_stopped cfg (vm_child_pid vm) evs2)
     else vm' = vm \<and> ca' = ca \<and> spawned evs = [] \<and> sent_signals evs = [] \<and> commands evs = [])"
  using assms
proof (cases rule: dispatch_cases)
  case reads
  then show ?thesis by (auto simp: quiet_def)
next
  case (starts_vm r)
  then show ?thesis using vm_start_effect [OF starts_vm(2)] by (cases r) (fastforce split: if_splits)+
next
  case (stops_all e1)
  obtain evs1 evs2 where "trace e1 = trace e @ evs1" "ca_stopped cfg (ca_child_pid ca) evs1"
    "trace e' = trace e1 @ evs2" "vm_stopped cfg (vm_child_pid vm) evs2"
    using ca_stop_effect [OF stops_all(2)] vm_stop_effect [OF stops_all(3)] by blast
  moreover have "vm_child_pid vm' = None" "ca_child_pid ca' = None"
    using vms.stop_laws [OF stops_all(3)] cas.stop_laws [OF stops_all(2)] by auto
  ultimately show ?thesis using stops_all(1) by (intro exI [of _ "evs1 @ evs2"]) auto
next
  case stops_vm
  then show ?thesis using vm_stop_effect [OF stops_vm(2)] vms.stop_laws [OF stops_vm(2)] by auto
next
  case (starts_ca r)
  then show ?thesis using ca_start_effect [OF starts_ca(2)] by (cases r) (fastforce split: if_splits)+
next
  case stops_ca
  then show ?thesis using ca_stop_effect [OF stops_ca(2)] cas.stop_laws [OF stops_ca(2)] by auto
qed

theorem ipc_command_scope_witness:
  "\<exists>resp vm' ca' e' evs p. dispatch sim_json default_config (sim_os_fs (\<lambda>_. Some 2000000)) NotStarted 0
     ''start_all'' vm_new ca_new (sim_env sim_world) = Some (resp, vm', ca', e') \<and>
     ca' = ca_new \<and> trace e' = trace (sim_env sim_world) @ evs \<and>
     spawned evs = [(vm_command default_config, Inr p)] \<and> vm_child_pid vm' = Some p"
proof -
  let ?os = "sim_os_fs (\<lambda>_. Some 2000000)"
  have c: "request_cmd sim_json ''start_all'' = ''start_all''"
    by (simp add: request_cmd_def sim_json_def)
  obtain vm' e' where v: "vm_start default_config ?os vm_new (sim_env sim_world) = (Inr (), vm', e')"
    by (simp add: vm_start_def validate_images_def required_images_def sized_images_def
        min_image_bytes_def spawn_with_log_def rotate_if_needed_def max_log_bytes_def sim_eval)
  then have d: "dispatch sim_json default_config ?os NotStarted 0 ''start_all'' vm_new ca_new (sim_env sim_world)
      = Some (ok_msg ''starting'', vm', ca_new, e')"
    using c by (simp add: dispatch_def request_cmd_def [symmetric] Let_def handle_start_all_def)
  show ?thesis using ipc_command_scope [OF d] c d by (auto simp: ok_msg_def)
qed

text \<open>Stopping the CA and then the VM, as \<open>stop_all\<close> and the shutdown do.\<close>

lemma stop_both:
  assumes c: "ca_stop cfg os ca e = Some (ca', e1)" and v: "vm_stop cfg os vm e1 = Some (vm', e')"
  shows "vm_state vm' = Vm_Idle \<and> vm_child_pid vm' = None \<and> vm_crash_count vm' = vm_crash_count vm \<and>
    ca_state ca' = Ca_Idle \<and> ca_child_pid ca' = None \<and> ca_crash_count ca' = ca_crash_count ca \<and>
    (\<exists>evs1 evs2. trace e' = trace e @ evs1 @ evs2 \<and> ca_stopped cfg (ca_child_pid ca) evs1 \<and>
       vm_stopped cfg (vm_child_pid vm) evs2)"
proof -
  have "ca_state ca' = Ca_Idle \<and> ca_child_pid ca' = None \<and> ca_crash_count ca' = ca_crash_count ca"
    using c by (cases rule: ca_stop_cases) auto
  moreover have "vm_state vm' = Vm_Idle \<and> vm_child_pid vm' = None \<and> vm_crash_count vm' = vm_crash_count vm"
    using v by (cases rule: vm_stop_cases) auto
  moreover obtain evs1 where "trace e1 = trace e @ evs1" "ca_stopped cfg (ca_child_pid ca) evs1"
    using ca_stop_effect [OF c] by blast
  moreover obtain evs2 where "trace e' = trace e1 @ evs2" "vm_stopped cfg (vm_child_pid vm) evs2"
    using vm_stop_effect [OF v] by blast
  ultimately show ?thesis by auto
qed

text \<open>
  \<open>stop_all\<close> stops the CA first and the VM second: both managers end idle and
  owning nothing with their crash counters unchanged, the CA's process is killed gracefully
  and after that the VM's is stopped.
\<close>

theorem stop_all_order:
  assumes "handle_stop_all cfg os vm ca e = Some (resp, vm', ca', e')"
  shows "vm_state vm' = Vm_Idle \<and> vm_child_pid vm' = None \<and> vm_crash_count vm' = vm_crash_count vm \<and>
    ca_state ca' = Ca_Idle \<and> ca_child_pid ca' = None \<and> ca_crash_count ca' = ca_crash_count ca \<and>
    (\<exists>evs1 evs2. trace e' = trace e @ evs1 @ evs2 \<and> ca_stopped cfg (ca_child_pid ca) evs1 \<and>
       vm_stopped cfg (vm_child_pid vm) evs2)"
proof -
  from assms obtain e1 where "ca_stop cfg os ca e = Some (ca', e1)" "vm_stop cfg os vm e1 = Some (vm', e')"
    by (auto simp: handle_stop_all_def bind_Some_iff)
  then show ?thesis by (rule stop_both)
qed

theorem stop_all_order_witness:
  "\<exists>resp vm' ca' e'. handle_stop_all default_config sim_os vm_new
      (ca_new\<lparr>ca_state := Ca_Running, ca_child_pid := Some 7\<rparr>) (sim_env sim_world)
      = Some (resp, vm', ca', e') \<and> ca_state ca' = Ca_Idle \<and> ca_child_pid ca' = None"
proof -
  let ?ca = "ca_new\<lparr>ca_state := Ca_Running, ca_child_pid := Some 7\<rparr>"
  have "handle_stop_all default_config sim_os vm_new ?ca (sim_env sim_world) \<noteq> None"
    by (simp add: handle_stop_all_def vm_stop_def vm_new_def ca_stop_def graceful_kill_def
        grace_wait.simps is_alive_def default_defs sim_eval)
  then obtain resp vm' ca' e' where
    h: "handle_stop_all default_config sim_os vm_new ?ca (sim_env sim_world) = Some (resp, vm', ca', e')"
    by (metis not_None_eq prod_cases4)
  show ?thesis using stop_all_order [OF h] h by blast
qed

text \<open>The request lines of a connection, as the loop reads them.\<close>

function client_lines :: "nat \<Rightarrow> string \<Rightarrow> read_end \<Rightarrow> string list" where
  "client_lines n bs en =
     (case read_line n bs en of LineEnd \<Rightarrow> [] | Line raw rest \<Rightarrow> raw # client_lines n rest en)"
  by pat_completeness auto
termination
  by (relation "measure (\<lambda>(n, bs, en). length bs)") (auto dest: read_line_shorter)

declare client_lines.simps [simp del]

lemma client_lines_step:
  "read_line n bs en = LineEnd \<Longrightarrow> client_lines n bs en = []"
  "read_line n bs en = Line raw rest \<Longrightarrow> client_lines n bs en = raw # client_lines n rest en"
  by (simp_all add: client_lines.simps [of n bs en])

lemma read_line_facts:
  assumes "read_line n bs en = Line raw rest"
  shows "bs = raw @ rest" "raw \<noteq> []" "length raw \<le> n" "nl \<notin> set (butlast raw)"
proof -
  let ?tw = "takeWhile (\<lambda>c. c \<noteq> nl) (take n bs)"
  let ?k = "min n (Suc (length ?tw))"
  have r: "raw = take ?k bs" "rest = drop ?k bs" "raw \<noteq> []"
    using assms by (auto simp: read_line_def next_chunk_def Let_def split: if_splits)
  show "bs = raw @ rest" "raw \<noteq> []" "length raw \<le> n" using r by auto
  have tw: "?tw = take (length ?tw) bs"
    using takeWhile_eq_take [of "\<lambda>c. c \<noteq> nl" "take n bs"] length_takeWhile_le [of "\<lambda>c. c \<noteq> nl" "take n bs"]
    by (simp add: min_absorb1)
  have "butlast raw = take (length raw - 1) (take ?k bs)" using r(1) by (simp add: butlast_conv_take)
  also have "\<dots> = take (min (length raw - 1) ?k) bs" by simp
  finally have b: "butlast raw = take (min (length raw - 1) ?k) bs" .
  have "length raw \<le> ?k" unfolding r(1) length_take by (rule min.cobounded2)
  then have "min (length raw - 1) ?k \<le> length ?tw" by linarith
  then have "set (butlast raw) \<subseteq> set (take (length ?tw) bs)"
    unfolding b by (rule set_take_subset_set_take)
  then have "set (butlast raw) \<subseteq> set ?tw" using tw by argo
  then show "nl \<notin> set (butlast raw)" by (auto dest: set_takeWhileD)
qed

lemma ascii_utf8: "\<forall>c \<in> set s. of_char c < (128 :: nat) \<Longrightarrow> utf8_valid s"
  by (induction s) (auto simp: utf8_valid_def)

lemma read_line_ascii_eof:
  assumes "\<forall>c \<in> set bs. of_char c < (128 :: nat)" and "bs \<noteq> []" and "0 < n"
  shows "\<exists>raw rest. read_line n bs Eof = Line raw rest"
proof -
  have "fst (next_chunk n bs) \<noteq> []" using assms(2,3) by (simp add: next_chunk_def Let_def)
  moreover have "utf8_valid (fst (next_chunk n bs))"
    using assms(1) by (intro ascii_utf8) (auto simp: next_chunk_def Let_def dest: in_set_takeD)
  ultimately show ?thesis by (simp add: read_line_def case_prod_beta Let_def)
qed

text \<open>
  C30. Framing: the lines the daemon reads are consecutive pieces of what the client sent,
  in order and without gaps, each non-empty, at most 64 KiB long and with no line feed
  before its last byte. Of a client that sends ASCII and then closes, nothing is lost.
\<close>

theorem client_lines_framing:
  "prefix (concat (client_lines max_request_line_bytes bs en)) bs \<and>
   (\<forall>raw \<in> set (client_lines max_request_line_bytes bs en).
      raw \<noteq> [] \<and> length raw \<le> 65536 \<and> nl \<notin> set (butlast raw)) \<and>
   ((\<forall>c \<in> set bs. of_char c < (128 :: nat)) \<and> en = Eof \<longrightarrow>
      concat (client_lines max_request_line_bytes bs en) = bs)"
proof (induction "length bs" arbitrary: bs rule: less_induct)
  case less
  show ?case
  proof (cases "read_line max_request_line_bytes bs en")
    case LineEnd
    then have "client_lines max_request_line_bytes bs en = []" by (simp add: client_lines_step)
    then show ?thesis
      using read_line_ascii_eof [of bs max_request_line_bytes] LineEnd
      by (cases "bs = []") (auto simp: max_request_line_bytes_def)
  next
    case (Line raw rest)
    note f = read_line_facts [OF Line]
    have "client_lines max_request_line_bytes bs en
        = raw # client_lines max_request_line_bytes rest en" using Line by (simp add: client_lines_step)
    moreover have "length raw \<le> 65536" using f(3) by (simp add: max_request_line_bytes_def)
    ultimately show ?thesis
      using less.hyps [OF read_line_shorter [OF Line]] f(1,2,4) by auto
  qed
qed

theorem client_lines_framing_witness:
  "concat (client_lines max_request_line_bytes (''ping'' @ [nl] @ ''x'') Eof) = ''ping'' @ [nl] @ ''x''"
  using client_lines_framing [of "''ping'' @ [nl] @ ''x''" Eof] by simp

fun replies :: "(instant \<times> event) list \<Rightarrow> string list" where
  "replies [] = []"
| "replies ((t, EvReply s ok) # evs) = s # replies evs"
| "replies (_ # evs) = replies evs"

lemma replies_append [simp]: "replies (xs @ ys) = replies xs @ replies ys"
  by (induction xs rule: replies.induct) auto

lemma replies_inner: "\<forall>ev \<in> set evs. inner_event (snd ev) \<Longrightarrow> replies evs = []"
  by (induction evs rule: replies.induct) auto

text \<open>\<open>answered n e e'\<close>: from \<open>e\<close> to \<open>e'\<close> the client got \<open>n\<close> lines.\<close>

definition answered :: "nat \<Rightarrow> 'w env \<Rightarrow> 'w env \<Rightarrow> bool" where
  "answered n e e' \<longleftrightarrow> (\<exists>evs. trace e' = trace e @ evs \<and> length (replies evs) = n \<and>
     (\<forall>s \<in> set (replies evs). s \<noteq> [] \<and> last s = nl))"

lemma answered_trans: "answered m a b \<Longrightarrow> answered n b c \<Longrightarrow> answered (m + n) a c"
  by (fastforce simp: answered_def)

lemma answered_op: "op_le e e' \<Longrightarrow> answered 0 e e'"
  by (fastforce simp: answered_def op_le_def dest: replies_inner)

lemma answered_write: "answered 1 e (snd (write_response js os r e))"
  by (simp add: answered_def write_response_def reply_def Let_def env_simps)

text \<open>
  Of a client that keeps to the limits the pieces read are its lines: every line is at most
  64 KiB long and valid UTF-8, and the last one ends in a line feed or is followed by the end of
  the stream.
\<close>

lemma next_chunk_line: "nl \<notin> set xs \<Longrightarrow> length xs < n \<Longrightarrow> next_chunk n (xs @ nl # ys) = (xs @ [nl], ys)"
proof -
  assume xs: "nl \<notin> set xs" "length xs < n"
  obtain k where k: "n - length xs = Suc k" using xs(2) by (cases "n - length xs") auto
  have "takeWhile (\<lambda>c. c \<noteq> nl) (take n (xs @ nl # ys)) = xs"
    using xs by (simp add: k takeWhile_append2) (use xs(1) in \<open>auto simp: takeWhile_append\<close>)
  moreover have "min n (Suc (length xs)) = Suc (length xs)" using xs(2) by simp
  ultimately show ?thesis unfolding next_chunk_def by (simp only: Let_def) simp
qed

lemma next_chunk_last: "nl \<notin> set xs \<Longrightarrow> length xs \<le> n \<Longrightarrow> next_chunk n xs = (xs, [])"
proof -
  assume xs: "nl \<notin> set xs" "length xs \<le> n"
  then have "takeWhile (\<lambda>c. c \<noteq> nl) (take n xs) = xs" by (auto simp: takeWhile_eq_all_conv)
  moreover have "length xs \<le> min n (Suc (length xs))" using xs(2) by simp
  ultimately show ?thesis unfolding next_chunk_def by (simp only: Let_def) simp
qed

lemma client_lines_are_lines:
  assumes "\<forall>l \<in> set (split_inclusive bs). length l \<le> n \<and> utf8_valid l"
    and "en = Eof \<or> bs = [] \<or> last bs = nl"
  shows "client_lines n bs en = split_inclusive bs"
  using assms
proof (induction "length bs" arbitrary: bs rule: less_induct)
  case less
  show ?case
  proof (cases "nl \<in> set bs")
    case True
    then obtain xs ys where bs: "bs = xs @ nl # ys" "nl \<notin> set xs" by (meson split_list_first)
    note s = split_inclusive_nl [OF bs(2), of ys]
    have l: "length xs < n" "utf8_valid (xs @ [nl])" using less.prems(1) by (auto simp: bs(1) s)
    have "read_line n bs en = Line (xs @ [nl]) ys"
      using l next_chunk_line [OF bs(2) l(1), of ys] by (simp add: bs(1) read_line_def)
    moreover have "client_lines n ys en = split_inclusive ys"
      using less.prems by (intro less.hyps) (auto simp: bs(1) s split: if_splits)
    ultimately show ?thesis by (simp add: client_lines_step bs(1) s)
  next
    case False
    show ?thesis
    proof (cases "bs = []")
      case True
      then have "read_line n bs en = LineEnd" by (simp add: read_line_def next_chunk_def Let_def)
      then show ?thesis using True by (simp add: client_lines_step)
    next
      case ne: False
      then have "en = Eof" using less.prems(2) False by (metis last_in_set)
      moreover have l: "length bs \<le> n" "utf8_valid bs"
        using less.prems(1) split_inclusive_last [OF False ne] by auto
      ultimately have "read_line n bs en = Line bs []"
        using ne next_chunk_last [OF False l(1)] by (simp add: read_line_def)
      moreover have "client_lines n [] en = []"
        by (simp add: client_lines_step read_line_def next_chunk_def Let_def)
      ultimately show ?thesis by (simp add: client_lines_step split_inclusive_last [OF False ne])
    qed
  qed
qed

text \<open>
  C29. One answer per request, of a client that takes what is written to it. If it sends lines
  of at most 64 KiB of valid UTF-8, the last of them ended by a line feed or by the end of the
  stream, it gets exactly one newline-terminated line for every line that is not blank
  (empty but for its line end), malformed JSON included, and none for a blank one. Of any other
  client the answers are counted by the pieces the daemon reads: a longer line is cut
  into pieces of 64 KiB, each answered, and from a piece that is not UTF-8 or a line cut short
  by a read error on nothing is answered. All is served before the daemon returns to its
  main loop.
\<close>

theorem one_answer_per_request:
  assumes "handle_client js cfg os conn ph t vm ca e = Some (vm', ca', e')"
    and "\<And>s w. fst (os_reply os s w)"
  shows "\<exists>evs. trace e' = trace e @ evs \<and>
    ((\<forall>l \<in> set (split_inclusive (conn_bytes conn)). length l \<le> 65536 \<and> utf8_valid l) \<and>
       (conn_end conn = Eof \<or> conn_bytes conn = [] \<or> last (conn_bytes conn) = nl) \<longrightarrow>
     length (replies evs) = length (filter (\<lambda>l. request_text l \<noteq> []) (split_inclusive (conn_bytes conn)))) \<and>
    length (replies evs) = length (filter (\<lambda>l. request_text l \<noteq> [])
      (client_lines max_request_line_bytes (conn_bytes conn) (conn_end conn))) \<and>
    (\<forall>s \<in> set (replies evs). s \<noteq> [] \<and> last s = nl)"
proof -
  let ?en = "conn_end conn"
  let ?n = "\<lambda>bs. length (filter (\<lambda>l. request_text l \<noteq> []) (client_lines max_request_line_bytes bs ?en))"
  have wait: "answered 0 e (recv_wait os e)" for e by (rule answered_op [OF call_op_le(14)])
  have "client_loop js cfg os ph t (conn_bytes conn) ?en vm ca e = Some (vm', ca', e')"
    using assms(1) by (simp add: handle_client_def)
  then have "answered (?n (conn_bytes conn)) e e'"
  proof (induct rule: client_loop_induct)
    case (finish bs vm ca e)
    then show ?case using wait by (simp add: client_lines_step)
  next
    case (blank bs raw rest vm ca e vm' ca' e')
    then show ?case using answered_trans [OF wait blank(3)] by (simp add: client_lines_step)
  next
    case (bad bs raw rest err vm ca e vm' ca' e')
    then show ?case using answered_trans [OF wait answered_trans [OF answered_write bad(4)]]
      by (simp add: client_lines_step)
  next
    case (served bs raw rest req resp vm1 ca1 e2 e3 vm ca e vm' ca' e')
    have "answered 0 e e2"
      using answered_trans [OF wait answered_op [OF dispatch_op_le [OF served(4)]]] by simp
    moreover have "answered 1 e2 e3" using answered_write [of e2 js os resp] served(5) by simp
    ultimately have "answered (0 + 1) e e3" by (rule answered_trans)
    from answered_trans [OF this served(6)] have "answered (1 + ?n rest) e e'" by simp
    then show ?case using served(1,2) by (simp add: client_lines_step)
  next
    case (gone bs raw rest req resp e2 vm ca e vm' ca' e')
    have "fst (write_response js os resp e2)"
      using assms(2) by (simp add: write_response_def reply_def Let_def env_simps)
    then show ?case using gone(5) by simp
  qed
  then show ?thesis
    using client_lines_are_lines [of "conn_bytes conn" 65536 ?en]
    by (auto simp: answered_def max_request_line_bytes_def)
qed

theorem one_answer_per_request_witness:
  "\<exists>vm' ca' e' evs. handle_client sim_json default_config sim_os
      \<lparr>conn_bytes = ''ping'' @ [nl, nl] @ ''!'', conn_end = Eof\<rparr> NotStarted 0 vm_new ca_new
      (sim_env sim_world) = Some (vm', ca', e') \<and> trace e' = [] @ evs \<and> length (replies evs) = 2"
proof -
  let ?c = "\<lparr>conn_bytes = ''ping'' @ [nl, nl] @ ''!'', conn_end = Eof\<rparr>"
  have "handle_client sim_json default_config sim_os ?c NotStarted 0 vm_new ca_new (sim_env sim_world) \<noteq> None"
    by (simp add: handle_client_def client_loop.simps read_line_def next_chunk_def
        max_request_line_bytes_def utf8_valid_def request_text_def trim_end_matches_def
        sim_json_def dispatch_def write_response_def sim_eval)
  then obtain vm' ca' e' where
    h: "handle_client sim_json default_config sim_os ?c NotStarted 0 vm_new ca_new (sim_env sim_world)
      = Some (vm', ca', e')" by (metis not_None_eq prod_cases3)
  have w: "fst (os_reply sim_os s w)" for s w by (simp add: sim_defs)
  have l: "split_inclusive (conn_bytes ?c) = [''ping'' @ [nl], [nl], ''!'']" by simp
  show ?thesis using one_answer_per_request [OF h w] h unfolding l
    by (auto simp: request_text_def trim_end_matches_def sim_env_def utf8_valid_def)
qed

text \<open>
  C32. \<open>tail_log\<close> on any request, by its source (\<open>daemon\<close> when it names none). For
  \<open>vm\<close> or \<open>pvm\<close>, \<open>ca\<close> and \<open>daemon\<close> the daemon reads the log of that name in the configured
  log directory, and nothing else, and returns its last lines: as many as requested (200 when
  no number is given), never more than 10000, and a fixed text when the log cannot be read or
  is not UTF-8. Any other source is refused, by name, without a call of the kernel.
\<close>

theorem tail_log_confined:
  fixes js req cfg os e
  defines "source \<equiv> (case js_get_str js req ''source'' of Some s \<Rightarrow> s | None \<Rightarrow> ''daemon'')"
    and "requested \<equiv> (case js_get_u64 js req ''lines'' of Some n \<Rightarrow> unat n | None \<Rightarrow> 200)"
  shows "\<exists>evs. trace (snd (handle_tail_log js cfg os req e)) = trace e @ evs \<and>
     (if source \<in> {''vm'', ''pvm'', ''ca'', ''daemon''}
      then \<exists>t r content. evs = [(t, EvReadFile (path_join (log_dir cfg)
                (if source = ''ca'' then ''ca.log'' else if source = ''daemon'' then ''daemon.log''
                 else ''pvm.log'')) r)] \<and>
        fst (handle_tail_log js cfg os req e) = [(''ok'', JBool True), (''content'', JStr content)] \<and>
        count_list content nl \<le> min requested 10000 - 1 \<and>
        content = (case r of
            Inr s \<Rightarrow> if utf8_valid s then str_join [nl] (rev (take (min requested 10000) (rev (str_lines s))))
              else ''(file not found)''
          | Inl _ \<Rightarrow> ''(file not found)'')
      else evs = [] \<and> snd (handle_tail_log js cfg os req e) = e \<and> fst (handle_tail_log js cfg os req e) =
        [(''ok'', JBool False), (''error'', JStr (''unknown source: '' @ source))])"
proof -
  let ?n = "min requested max_tail_lines"
  have h: "handle_tail_log js cfg os req e =
    (case log_source cfg source of
       None \<Rightarrow> (err_msg (''unknown source: '' @ source), e)
     | Some p \<Rightarrow> ([(''ok'', JBool True), (''content'', JStr (fst (tail_log os p ?n e)))], snd (tail_log os p ?n e)))"
    by (cases "js_get_u64 js req ''lines''")
      (simp_all add: handle_tail_log_def source_def requested_def Let_def case_prod_beta split: option.split)
  have t: "\<exists>t r. trace (snd (tail_log os p n e)) = trace e @ [(t, EvReadFile p r)] \<and>
      fst (tail_log os p n e) = (case r of
          Inr s \<Rightarrow> if utf8_valid s then str_join [nl] (rev (take n (rev (str_lines s)))) else ''(file not found)''
        | Inl _ \<Rightarrow> ''(file not found)'')" for p n
  proof -
    obtain r e1 where r: "sys (os_read_file os p) (\<lambda>r. [EvReadFile p r]) e = (r, e1)" by fastforce
    then have "trace e1 = trace e @ [(clock e1, EvReadFile p r)]" using sys_facts(1) [OF r] by simp
    then show ?thesis
      by (intro exI [of _ "clock e1"] exI [of _ r])
        (simp add: tail_log_def read_to_string_def r Let_def take_rev split: sum.split)
  qed
  have c: "count_list (fst (tail_log os p n e)) nl \<le> n - 1" for p n
  proof (cases "fst (read_to_string os p e)")
    case (Inl err)
    then have "fst (tail_log os p n e) = ''(file not found)''"
      by (auto simp: tail_log_def split: prod.splits sum.splits)
    then show ?thesis by simp
  next
    case (Inr content)
    then show ?thesis using count_nl_tail_log [OF Inr, of n] by simp
  qed
  have n: "?n = min requested 10000" by (simp add: max_tail_lines_def)
  show ?thesis
  proof (cases "log_source cfg source")
    case None
    then show ?thesis by (auto simp: h err_msg_def log_source_def split: if_splits)
  next
    case (Some p)
    then have p: "source \<in> {''vm'', ''pvm'', ''ca'', ''daemon''}" "p = path_join (log_dir cfg)
        (if source = ''ca'' then ''ca.log'' else if source = ''daemon'' then ''daemon.log'' else ''pvm.log'')"
      by (auto simp: log_source_def split: if_splits)
    have r: "handle_tail_log js cfg os req e =
        ([(''ok'', JBool True), (''content'', JStr (fst (tail_log os p ?n e)))], snd (tail_log os p ?n e))"
      by (simp add: h Some)
    show ?thesis unfolding if_P [OF p(1)] p(2) [symmetric] n [symmetric] r fst_conv snd_conv
      using t [of p ?n] c [of p ?n] by blast
  qed
qed

theorem tail_log_confined_witness:
  "fst (handle_tail_log (sim_json\<lparr>js_get_str := (\<lambda>v k. Some v)\<rparr>) default_config sim_os ''/etc/passwd''
     (sim_env sim_world)) = [(''ok'', JBool False), (''error'', JStr ''unknown source: /etc/passwd'')]"
  using tail_log_confined [where js = "sim_json\<lparr>js_get_str := (\<lambda>v k. Some v)\<rparr>" and cfg = default_config
    and os = sim_os and req = "''/etc/passwd''" and e = "sim_env sim_world"] by auto

end
