(* ===== verification/Daemon.thy ===== *)
theory Daemon
  imports Ipc Health
begin

text \<open>
  The daemon itself, src/src/main.rs: acquiring the listener, initialisation, the event
  loop, the reaping of children, and the shutdown. \<open>main_iter\<close> is one turn of the loop of
  \<open>main\<close>; its boolean says whether the turn left the loop. \<open>reap_children\<close> and
  \<open>main_loop\<close> may run forever and are \<open>None\<close> then, as they are on a panic.
\<close>

section \<open>Reaping\<close>

definition handle_child_death ::
  "config \<Rightarrow> 'w os \<Rightarrow> pid \<Rightarrow> vm_manager \<Rightarrow> ca_manager \<Rightarrow> 'w env \<Rightarrow> vm_manager \<times> ca_manager \<times> 'w env" where
  "handle_child_death cfg os p vm ca e =
     (if vm_owns_pid vm p then
        let vm1 = vm_mark_dead vm in
        if 5 \<le> vm_crash_count vm1 then
          let (vm2, e1) = vm_set_state os Vm_Error vm1 e in (vm2, ca, e1)
        else (vm1, ca, e)
      else if ca_owns_pid ca p then
        let ca1 = ca_mark_dead ca in
        if ca_crash_count ca1 < 5 then
          let (_, ca2, e1) = ca_start cfg (vsock_cid cfg) os ca1 e in (vm, ca2, e1)
        else
          let (ca2, e1) = ca_set_state os Ca_Error ca1 e in (vm, ca2, e1)
      else (vm, ca, e))"

partial_function (option) reap_loop ::
  "config \<Rightarrow> 'w os \<Rightarrow> bool \<Rightarrow> vm_manager \<Rightarrow> ca_manager \<Rightarrow> 'w env
   \<Rightarrow> (bool \<times> vm_manager \<times> ca_manager \<times> 'w env) option" where
  "reap_loop cfg os reaped_any vm ca e =
     (case waitpid_nohang os e of (status, e1) \<Rightarrow>
       (case status of
          WExited p code \<Rightarrow>
            (case handle_child_death cfg os p vm ca e1 of
               (vm1, ca1, e2) \<Rightarrow> reap_loop cfg os True vm1 ca1 e2)
        | WSignaled p sig \<Rightarrow>
            (case handle_child_death cfg os p vm ca e1 of
               (vm1, ca1, e2) \<Rightarrow> reap_loop cfg os True vm1 ca1 e2)
        | WStillAlive \<Rightarrow> Some (reaped_any, vm, ca, e1)
        | WError \<Rightarrow> Some (reaped_any, vm, ca, e1)
        | WOther \<Rightarrow> Some (reaped_any, vm, ca, e1)))"

definition reap_children ::
  "config \<Rightarrow> 'w os \<Rightarrow> vm_manager \<Rightarrow> ca_manager \<Rightarrow> 'w env
   \<Rightarrow> (bool \<times> vm_manager \<times> ca_manager \<times> 'w env) option" where
  "reap_children cfg os vm ca e = reap_loop cfg os False vm ca e"

section \<open>The listener\<close>

text \<open>\<open>str::parse::<i32>()\<close>: an optional sign, then at least one digit, in range.\<close>

definition all_digits :: "string \<Rightarrow> bool" where
  "all_digits s \<longleftrightarrow> s \<noteq> [] \<and> (\<forall>c \<in> set s. (48 :: nat) \<le> of_char c \<and> (of_char c :: nat) \<le> 57)"

definition parse_i32 :: "string \<Rightarrow> int option" where
  "parse_i32 s =
     (let neg = (s \<noteq> [] \<and> hd s = CHR ''-'');
          digits = (if s \<noteq> [] \<and> (hd s = CHR ''-'' \<or> hd s = CHR ''+'') then tl s else s);
          v = (if neg then - int (undec digits 0) else int (undec digits 0))
      in if all_digits digits \<and> - (2 ^ 31) \<le> v \<and> v < 2 ^ 31 then Some v else None)"

datatype listener = Inherited int | Bound path

text \<open>\<open>from_raw_fd\<close> refuses the descriptor -1 with a panic, and \<open>bind\<close> is unwrapped
  with \<open>expect\<close>: both are \<open>None\<close>.\<close>

definition acquire_listener :: "config \<Rightarrow> 'w os \<Rightarrow> 'w env \<Rightarrow> (listener \<times> 'w env) option" where
  "acquire_listener cfg os e =
     (let (fd_str, e1) = env_var os ''ANDROID_SOCKET_teeproxyd'' e in
      case Option.bind fd_str parse_i32 of
        Some fd \<Rightarrow> if fd = - 1 then None else Some (Inherited fd, e1)
      | None \<Rightarrow>
          let path = path_join (data_dir cfg) ''teeproxyd.sock'';
              (_, e2) = remove_file os path e1;
              (ok, e3) = bind_listener os path e2
          in if ok then Some (Bound path, e3) else None)"

section \<open>The loop\<close>

record daemon =
  d_vm :: vm_manager
  d_ca :: ca_manager
  d_health :: health_monitor
  d_phase :: startup_phase
  d_last_health :: instant

definition health_interval :: "config \<Rightarrow> nat" where
  "health_interval cfg = unat (health_interval_secs cfg) * ns_per_sec"

text \<open>\<open>as_millis() as i32\<close> keeps the low 32 bits of the milliseconds.\<close>

definition poll_timeout_ms :: "startup_phase \<Rightarrow> nat \<Rightarrow> int" where
  "poll_timeout_ms ph until_health =
     (case ph of
        WaitingVsock _ _ x \<Rightarrow> if \<not> x then 1000 else 2000
      | WaitingCaPort _ \<Rightarrow> 500
      | _ \<Rightarrow> sint (word_of_nat (until_health div ns_per_ms) :: 32 word))"

definition poll_timeout :: "startup_phase \<Rightarrow> nat \<Rightarrow> u16" where
  "poll_timeout ph until_health = word_of_int (min (max (poll_timeout_ms ph until_health) 100) 10000)"

text \<open>
  Readiness of the self-pipe after \<open>poll\<close>: a byte that was there when the call began is
  always reported; one that arrives during the call is reported or not, as the kernel says.
\<close>

definition sig_ready :: "'w env \<Rightarrow> (bool \<times> bool) option \<Rightarrow> 'w env \<Rightarrow> bool" where
  "sig_ready before ready after =
     (case ready of
        None \<Rightarrow> False
      | Some (_, s) \<Rightarrow> sigpipe before \<noteq> [] \<or> s \<and> sigpipe after \<noteq> [])"

definition check_signals ::
  "config \<Rightarrow> 'w os \<Rightarrow> vm_manager \<Rightarrow> ca_manager \<Rightarrow> 'w env
   \<Rightarrow> (bool \<times> vm_manager \<times> ca_manager \<times> 'w env) option" where
  "check_signals cfg os vm ca e =
     (let (buf, e1) = read_sigpipe 64 e;
          got_term = CHR ''T'' \<in> set buf;
          got_chld = CHR ''C'' \<in> set buf
      in do {
        (_, vm1, ca1, e2) \<leftarrow>
          (if got_chld then reap_children cfg os vm ca e1 else Some (False, vm, ca, e1));
        Some (got_term, vm1, ca1, e2)
      })"

definition serve_ipc ::
  "'v json \<Rightarrow> config \<Rightarrow> 'w os \<Rightarrow> startup_phase \<Rightarrow> instant \<Rightarrow> vm_manager \<Rightarrow> ca_manager \<Rightarrow> 'w env
   \<Rightarrow> (vm_manager \<times> ca_manager \<times> 'w env) option" where
  "serve_ipc js cfg os ph started_at vm ca e =
     (case accept os e of
        (Some conn, e1) \<Rightarrow> handle_client js cfg os conn ph started_at vm ca e1
      | (None, e1) \<Rightarrow> Some (vm, ca, e1))"

definition health_check ::
  "config \<Rightarrow> 'w os \<Rightarrow> health_monitor \<Rightarrow> ca_manager \<Rightarrow> instant \<Rightarrow> 'w env
   \<Rightarrow> (health_monitor \<times> ca_manager \<times> instant \<times> 'w env) option" where
  "health_check cfg os h ca last_health e =
     (let (now, e1) = instant_now os e in
      if health_interval cfg \<le> elapsed now last_health then do {
        (h1, ca1, e2) \<leftarrow>
          (if ca_state ca = Ca_Ready \<or> ca_state ca = Ca_Running then
             (case health_probe os h e1 of
                (RestartNeeded, h1, e2) \<Rightarrow> do {
                  (ca1, e3) \<leftarrow> ca_stop cfg os ca e2;
                  let (_, ca2, e4) = ca_start cfg (vsock_cid cfg) os ca1 e3;
                  Some (h1, ca2, e4)
                }
              | (_, h1, e2) \<Rightarrow> Some (h1, ca, e2))
           else Some (h, ca, e1));
        let (now2, e3) = instant_now os e2;
        Some (h1, ca1, now2, e3)
      }
      else Some (h, ca, last_health, e1))"

definition main_iter ::
  "'v json \<Rightarrow> config \<Rightarrow> 'w os \<Rightarrow> instant \<Rightarrow> daemon \<Rightarrow> 'w env \<Rightarrow> (bool \<times> daemon \<times> 'w env) option" where
  "main_iter js cfg os started_at d e =
     (let (now, e1) = instant_now os e;
          until_health = health_interval cfg - elapsed now (d_last_health d);
          (ready, e2) = poll_fds os (unat (poll_timeout (d_phase d) until_health)) e1
      in do {
        (got_term, vm1, ca1, e3) \<leftarrow>
          (if sig_ready e1 ready e2 then check_signals cfg os (d_vm d) (d_ca d) e2
           else Some (False, d_vm d, d_ca d, e2));
        if got_term then Some (True, d\<lparr>d_vm := vm1, d_ca := ca1\<rparr>, e3)
        else do {
          (vm2, ca2, e4) \<leftarrow>
            (case ready of
               Some (True, _) \<Rightarrow> serve_ipc js cfg os (d_phase d) started_at vm1 ca1 e3
             | _ \<Rightarrow> Some (vm1, ca1, e3));
          (ph, vm3, ca3, e5) \<leftarrow> advance_startup cfg os (d_phase d) vm2 ca2 e4;
          (h, ca4, last_health, e6) \<leftarrow>
            health_check cfg os (d_health d) ca3 (d_last_health d) e5;
          let (vm4, e7) = vm_maybe_reset_crash_count os vm3 e6;
          let (ca5, e8) = ca_maybe_reset_crash_count os ca4 e7;
          Some (False, \<lparr>d_vm = vm4, d_ca = ca5, d_health = h, d_phase = ph,
                        d_last_health = last_health\<rparr>, e8)
        }
      })"

partial_function (option) main_loop ::
  "'v json \<Rightarrow> config \<Rightarrow> 'w os \<Rightarrow> instant \<Rightarrow> daemon \<Rightarrow> 'w env \<Rightarrow> (daemon \<times> 'w env) option" where
  "main_loop js cfg os started_at d e =
     Option.bind (main_iter js cfg os started_at d e) (\<lambda>(brk, d1, e1).
       if brk then Some (d1, e1) else main_loop js cfg os started_at d1 e1)"

section \<open>Initialisation and shutdown\<close>

definition main_init ::
  "'u serde \<Rightarrow> 'w os \<Rightarrow> 'w env \<Rightarrow> (config \<times> listener \<times> instant \<times> daemon \<times> 'w env) option" where
  "main_init sd os e =
     (let (cfg, e1) = load_with_warnings sd os e;
          (_, e2) = create_dir_all os (log_dir cfg) e1;
          (_, e3) = create_dir_all os (image_dir cfg) e2;
          (sig_write, e4) = make_pipe os e3
      in do {
        write_fd \<leftarrow> sig_write;
        let e5 = setup_signal_handler write_fd e4;
        (l, e6) \<leftarrow> acquire_listener cfg os e5;
        let (started_at, e7) = instant_now os e6;
        let (last_health, e8) = instant_now os e7;
        Some (cfg, l, started_at,
          \<lparr>d_vm = vm_new, d_ca = ca_new,
           d_health = health_new (ca_port cfg) (health_fail_threshold cfg),
           d_phase = (if auto_start cfg then VmStarting else NotStarted),
           d_last_health = last_health\<rparr>, e8)
      })"

definition shutdown :: "config \<Rightarrow> 'w os \<Rightarrow> daemon \<Rightarrow> 'w env \<Rightarrow> (daemon \<times> 'w env) option" where
  "shutdown cfg os d e = do {
     (ca1, e1) \<leftarrow> ca_stop cfg os (d_ca d) e;
     (vm1, e2) \<leftarrow> vm_stop cfg os (d_vm d) e1;
     Some (d\<lparr>d_vm := vm1, d_ca := ca1\<rparr>, e2)
   }"

definition daemon_main :: "'u serde \<Rightarrow> 'v json \<Rightarrow> 'w os \<Rightarrow> 'w env \<Rightarrow> (daemon \<times> 'w env) option" where
  "daemon_main sd js os e = do {
     (cfg, l, started_at, d, e1) \<leftarrow> main_init sd os e;
     (d1, e2) \<leftarrow> main_loop js cfg os started_at d e1;
     shutdown cfg os d1 e2
   }"

section \<open>The poll timeout\<close>

lemma sint_word_of_nat_small: "n < 2 ^ 31 \<Longrightarrow> sint (word_of_nat n :: 32 word) = int n"
  by (simp add: signed_of_nat signed_take_bit_int_eq_self)

lemma unat_poll_timeout:
  "unat (poll_timeout ph until_health) = nat (min (max (poll_timeout_ms ph until_health) 100) 10000)"
proof -
  define m where "m = min (max (poll_timeout_ms ph until_health) 100) (10000 :: int)"
  have "100 \<le> m" "m \<le> 10000" by (simp_all add: m_def)
  then show ?thesis by (simp add: poll_timeout_def m_def [symmetric] unsigned_of_int take_bit_int_eq_self)
qed

lemma poll_timeout_range: "100 \<le> unat (poll_timeout ph u)" "unat (poll_timeout ph u) \<le> 10000"
  unfolding unat_poll_timeout by linarith+

text \<open>
  C36. The timeout handed to \<open>poll\<close>: one second during the probe delay, two seconds while
  the vsock is probed, half a second while the CA's port is. In every other phase the daemon
  waits until the health check is due, but at least 100 ms and at most 10 s, exactly so as long
  as that is below \<open>2 ^ 31\<close> milliseconds; above it the casts may give another value, but
  always one in this range.
\<close>

theorem poll_timeout_clamped:
  "100 \<le> unat (poll_timeout ph until_health) \<and> unat (poll_timeout ph until_health) \<le> 10000 \<and>
   (until_health div ns_per_ms < 2 ^ 31 \<longrightarrow>
      unat (poll_timeout ph until_health) =
        (case ph of
           WaitingVsock _ _ x \<Rightarrow> if x then 2000 else 1000
         | WaitingCaPort _ \<Rightarrow> 500
         | _ \<Rightarrow> min (max (until_health div ns_per_ms) 100) 10000))"
proof -
  let ?m = "min (max (poll_timeout_ms ph until_health) 100) (10000 :: int)"
  have "nat ?m = (case ph of
           WaitingVsock _ _ x \<Rightarrow> if x then 2000 else 1000
         | WaitingCaPort _ \<Rightarrow> 500
         | _ \<Rightarrow> min (max (until_health div ns_per_ms) 100) 10000)"
    if "until_health div ns_per_ms < 2 ^ 31"
    using sint_word_of_nat_small [OF that] by (cases ph) (auto simp: poll_timeout_ms_def)
  then show ?thesis using poll_timeout_range [of ph until_health] unat_poll_timeout by simp
qed

theorem poll_timeout_clamped_witness:
  "unat (poll_timeout Complete (30 * ns_per_sec)) = 10000 \<and> unat (poll_timeout CaStarting ns_per_sec) = 1000 \<and>
   unat (poll_timeout Complete (2500 * ns_per_ms)) = 2500"
  using poll_timeout_clamped [of Complete "30 * ns_per_sec"]
    poll_timeout_clamped [of Complete "2500 * ns_per_ms"] poll_timeout_clamped [of CaStarting ns_per_sec]
  by (simp add: ns_per_sec_def ns_per_ms_def)

section \<open>The death of a child\<close>

lemma handle_child_death_cases:
  assumes "handle_child_death cfg os p vm ca e = (vm', ca', e')"
  obtains
    (vm_died) "vm_child_pid vm = Some p" "ca' = ca" "e' = e"
      "vm' = (if 5 \<le> vm_crash_count vm + 1 then (vm_mark_dead vm)\<lparr>vm_state := Vm_Error\<rparr>
              else vm_mark_dead vm)"
  | (ca_restart) r where "vm_child_pid vm \<noteq> Some p" "ca_child_pid ca = Some p"
      "ca_crash_count ca + 1 < 5" "vm' = vm"
      "ca_start cfg (vsock_cid cfg) os (ca_mark_dead ca) e = (r, ca', e')"
  | (ca_error) "vm_child_pid vm \<noteq> Some p" "ca_child_pid ca = Some p"
      "\<not> ca_crash_count ca + 1 < 5" "vm' = vm" "e' = e"
      "ca' = (ca_mark_dead ca)\<lparr>ca_state := Ca_Error\<rparr>"
  | (unknown) "vm_child_pid vm \<noteq> Some p" "ca_child_pid ca \<noteq> Some p" "vm' = vm" "ca' = ca" "e' = e"
proof (cases "vm_child_pid vm = Some p")
  case True
  then show thesis using assms
    by (intro that(1)) (auto simp: handle_child_death_def vm_owns_pid_def vm_mark_dead_def
        vm_set_state_def Let_def split: if_splits)
next
  case vm: False
  consider "ca_child_pid ca \<noteq> Some p" | "ca_child_pid ca = Some p" "ca_crash_count ca + 1 < 5"
    | "ca_child_pid ca = Some p" "\<not> ca_crash_count ca + 1 < 5" by blast
  then show thesis
  proof cases
    case 1
    then show thesis using assms vm
      by (intro that(4)) (auto simp: handle_child_death_def vm_owns_pid_def ca_owns_pid_def)
  next
    case 2
    then show thesis using assms vm
      by (intro that(2) [of "fst (ca_start cfg (vsock_cid cfg) os (ca_mark_dead ca) e)"])
        (auto simp: handle_child_death_def vm_owns_pid_def ca_owns_pid_def ca_mark_dead_def Let_def
          split: prod.splits)
  next
    case 3
    then show thesis using assms vm
      by (intro that(3)) (auto simp: handle_child_death_def vm_owns_pid_def ca_owns_pid_def
          ca_mark_dead_def ca_set_state_def Let_def)
  qed
qed

text \<open>
  C9. Five strikes for the CA. When the CA's process dies, its death is counted and its pid
  forgotten. Up to the fourth death a start with the configured command follows at once:
  either it succeeds, and the CA runs under the new pid, or the trace shows why it could not
  (the binary is missing, the log cannot be opened, the kernel starts no process) and the
  manager owns nothing. At the fifth death it enters the error state and the kernel is not
  called. No process is signalled, and the VM is untouched.
\<close>

theorem ca_death_five_strikes:
  assumes "ca_child_pid ca = Some p" and "vm_child_pid vm \<noteq> Some p"
    and "unat (ca_crash_count ca) < 2 ^ 32 - 1"
    and "handle_child_death cfg os p vm ca e = (vm', ca', e')"
  shows "vm' = vm \<and> unat (ca_crash_count ca') = unat (ca_crash_count ca) + 1 \<and>
    ca_ready_since ca' = None \<and>
    (if unat (ca_crash_count ca) + 1 < 5
     then (\<exists>evs. trace e' = trace e @ evs \<and> sent_signals evs = [] \<and> commands evs = [] \<and>
             ((\<exists>q. spawned evs = [(ca_command cfg (vsock_cid cfg), Inr q)] \<and>
                 ca_state ca' = Ca_Running \<and> ca_child_pid ca' = Some q) \<or>
              ca_start_failed cfg evs \<and> (\<forall>(c, x) \<in> set (spawned evs). isl x) \<and>
              ca_state ca' \<in> {Ca_Idle, Ca_Starting} \<and> ca_child_pid ca' = None))
     else ca_state ca' = Ca_Error \<and> ca_child_pid ca' = None \<and> e' = e)"
proof -
  have c: "unat (ca_crash_count ca + 1) = unat (ca_crash_count ca) + 1"
    using assms(3) by (simp add: unat_Suc32)
  then have lt: "ca_crash_count ca + 1 < 5 \<longleftrightarrow> unat (ca_crash_count ca) + 1 < 5"
    by (simp add: word_less_nat_alt)
  from assms(4) show ?thesis
  proof (cases rule: handle_child_death_cases)
    case (ca_restart r)
    show ?thesis
    proof (cases r)
      case (Inl err)
      then obtain evs where "trace e' = trace e @ evs" "sent_signals evs = []" "commands evs = []"
        "ca_start_failed cfg evs" "ca' = ca_mark_dead ca \<or> ca' = (ca_mark_dead ca)\<lparr>ca_state := Ca_Starting\<rparr>"
        "\<forall>(c, x) \<in> set (spawned evs). isl x"
        using ca_start_effect [OF ca_restart(5)] by auto
      then show ?thesis using ca_restart c lt by (auto simp: ca_mark_dead_def)
    next
      case (Inr u)
      then show ?thesis using ca_start_effect [OF ca_restart(5)] ca_restart c lt
        by (auto simp: ca_mark_dead_def)
    qed
  next
    case ca_error
    then show ?thesis using c lt by (simp add: ca_mark_dead_def)
  qed (use assms in auto)
qed

theorem ca_death_five_strikes_witness:
  "\<exists>vm' ca' e' vm2 ca2 e2 q.
     handle_child_death default_config sim_os 7 vm_new
       (ca_new\<lparr>ca_state := Ca_Running, ca_child_pid := Some 7, ca_crash_count := 4\<rparr>) (sim_env sim_world)
       = (vm', ca', e') \<and> ca_state ca' = Ca_Error \<and> ca_child_pid ca' = None \<and> e' = sim_env sim_world \<and>
     handle_child_death default_config (sim_os_fs (\<lambda>_. Some 1)) 7 vm_new
       (ca_new\<lparr>ca_state := Ca_Running, ca_child_pid := Some 7, ca_crash_count := 3\<rparr>) (sim_env sim_world)
       = (vm2, ca2, e2) \<and> ca_child_pid ca2 = Some q \<and> spawned (trace e2) = [(ca_command default_config 103, Inr q)]"
proof -
  let ?ca = "\<lambda>n. ca_new\<lparr>ca_state := Ca_Running, ca_child_pid := Some 7, ca_crash_count := n\<rparr>"
  let ?os = "sim_os_fs (\<lambda>_. Some 1)"
  have v: "vm_child_pid vm_new \<noteq> Some 7" by (simp add: vm_new_def)
  obtain vm' ca' e' where
    h: "handle_child_death default_config sim_os 7 vm_new (?ca 4) (sim_env sim_world) = (vm', ca', e')"
    by (cases "handle_child_death default_config sim_os 7 vm_new (?ca 4) (sim_env sim_world)")
  obtain vm2 ca2 e2 where
    h2: "handle_child_death default_config ?os 7 vm_new (?ca 3) (sim_env sim_world) = (vm2, ca2, e2)"
    by (cases "handle_child_death default_config ?os 7 vm_new (?ca 3) (sim_env sim_world)")
  then have "ca_state ca2 = Ca_Running"
    by (auto simp: handle_child_death_def vm_new_def vm_owns_pid_def ca_new_def ca_owns_pid_def ca_mark_dead_def
        word_less_nat_alt ca_start_def spawn_with_log_def rotate_if_needed_def max_log_bytes_def sim_eval)
  then obtain q where "ca_child_pid ca2 = Some q" "spawned (trace e2) = [(ca_command default_config 103, Inr q)]"
    using ca_death_five_strikes [OF _ v _ h2] by (auto simp: sim_env_def default_defs)
  with ca_death_five_strikes [OF _ v _ h] h h2 show ?thesis by auto
qed

text \<open>
  C28. No restart for the VM, and none of a stranger. When the VM's process dies the daemon
  counts the death, forgets the pid and goes idle, or to the error state from the fifth death
  on; it starts nothing, makes no call and leaves the CA alone. The death of a process neither
  manager owns, one that was stopped for instance, changes nothing.
\<close>

theorem vm_death_and_strangers:
  assumes "handle_child_death cfg os p vm ca e = (vm', ca', e')"
    and "vm_child_pid vm = Some p \<or> ca_child_pid ca \<noteq> Some p"
  shows "ca' = ca \<and> e' = e \<and>
    vm' = (if vm_child_pid vm = Some p
           then \<lparr>vm_state = (if 5 \<le> vm_crash_count vm + 1 then Vm_Error else Vm_Idle),
                 vm_child_pid = None, vm_crash_count = vm_crash_count vm + 1, vm_ready_since = None\<rparr>
           else vm)"
  using assms(1)
  by (cases rule: handle_child_death_cases) (use assms(2) in \<open>auto simp: vm_mark_dead_def\<close>)

theorem vm_death_and_strangers_witness:
  "\<exists>vm' e'. handle_child_death default_config sim_os 7
      (vm_new\<lparr>vm_state := Vm_Ready, vm_child_pid := Some 7\<rparr>) ca_new (sim_env sim_world) = (vm', ca_new, e') \<and>
     e' = sim_env sim_world \<and> vm_state vm' = Vm_Idle \<and> vm_crash_count vm' = 1"
proof -
  let ?vm = "vm_new\<lparr>vm_state := Vm_Ready, vm_child_pid := Some 7\<rparr>"
  obtain vm' ca' e' where
    h: "handle_child_death default_config sim_os 7 ?vm ca_new (sim_env sim_world) = (vm', ca', e')"
    by (cases "handle_child_death default_config sim_os 7 ?vm ca_new (sim_env sim_world)")
  have "\<not> (5 :: u32) \<le> 1" by (simp add: word_le_nat_alt)
  then show ?thesis using vm_death_and_strangers [OF h] h by (simp add: vm_new_def ca_new_def)
qed

section \<open>Reaping ends\<close>

fun reported :: "wait_status \<Rightarrow> pid option" where
  "reported (WExited p _) = Some p"
| "reported (WSignaled p _) = Some p"
| "reported _ = None"

lemma reap_loop_step:
  assumes "waitpid_nohang os e = (st, e1)"
  shows "reap_loop cfg os b vm ca e =
    (case reported st of
       None \<Rightarrow> Some (b, vm, ca, e1)
     | Some p \<Rightarrow> (case handle_child_death cfg os p vm ca e1 of
         (vm1, ca1, e2) \<Rightarrow> reap_loop cfg os True vm1 ca1 e2))"
  using assms by (subst reap_loop.simps) (cases st; simp)

text \<open>
  What \<open>waitpid\<close> and \<open>fork\<close> promise about the children of the process, as a number
  \<open>r\<close> of the world: a reported child is gone, starting a process adds at most one, and the
  file operations around a start add none.
\<close>

definition counts_children :: "'w os \<Rightarrow> ('w \<Rightarrow> nat) \<Rightarrow> bool" where
  "counts_children os r \<longleftrightarrow>
     (\<forall>w. r (snd (snd (snd (os_waitpid os w))))
            + (if reported (fst (os_waitpid os w)) = None then 0 else 1) \<le> r w) \<and>
     (\<forall>c w. r (snd (snd (snd (os_spawn os c w)))) \<le> r w + 1) \<and>
     (\<forall>p w. r (snd (snd (snd (os_exists os p w)))) \<le> r w) \<and>
     (\<forall>p w. r (snd (snd (snd (os_metadata os p w)))) \<le> r w) \<and>
     (\<forall>p w. r (snd (snd (snd (os_open_append os p w)))) \<le> r w) \<and>
     (\<forall>p w. r (snd (snd (snd (os_try_clone os p w)))) \<le> r w) \<and>
     (\<forall>p q w. r (snd (snd (snd (os_rename os p q w)))) \<le> r w)"

lemma rank_calls:
  assumes "counts_children os r"
  shows "r (world (snd (spawn os c e))) \<le> r (world e) + 1"
    "r (world (snd (path_exists os p e))) \<le> r (world e)"
    "r (world (snd (metadata_len os p e))) \<le> r (world e)"
    "r (world (snd (open_append os p e))) \<le> r (world e)"
    "r (world (snd (try_clone os p e))) \<le> r (world e)"
    "r (world (snd (rename os p q e))) \<le> r (world e)"
    "r (world (snd (waitpid_nohang os e)))
       + (if reported (fst (waitpid_nohang os e)) = None then 0 else 1) \<le> r (world e)"
  using assms
  by (simp_all add: counts_children_def spawn_def path_exists_def metadata_len_def open_append_def
      try_clone_def rename_def waitpid_nohang_def env_simps)

lemma rank_rotate:
  assumes "counts_children os r"
  shows "r (world (rotate_if_needed os p m e)) \<le> r (world e)"
  using rank_calls(3) [OF assms, of p e] order_trans [OF rank_calls(6) [OF assms] rank_calls(3) [OF assms]]
  by (auto simp: rotate_if_needed_def case_prod_beta split: sum.split)

lemma rank_spawn_with_log:
  assumes k: "counts_children os r" and s: "spawn_with_log os cmd args envs lf cwd e = (x, e')"
  shows "r (world e') \<le> r (world e) + 1"
proof -
  let ?e1 = "rotate_if_needed os lf max_log_bytes e"
  let ?e2 = "snd (open_append os lf ?e1)" and ?e3 = "snd (try_clone os lf (snd (open_append os lf ?e1)))"
  have 1: "r (world ?e1) \<le> r (world e)" by (rule rank_rotate [OF k])
  have 2: "r (world ?e2) \<le> r (world ?e1)" by (rule rank_calls(4) [OF k])
  have 3: "r (world ?e3) \<le> r (world ?e2)" by (rule rank_calls(5) [OF k])
  have 4: "r (world (snd (spawn os c ?e3))) \<le> r (world ?e3) + 1" for c by (rule rank_calls(1) [OF k])
  have "e' = ?e2 \<or> e' = ?e3 \<or> (\<exists>c. e' = snd (spawn os c ?e3))"
    using s by (auto simp: spawn_with_log_def Let_def split: prod.splits option.splits) (metis snd_conv)
  then show ?thesis
  proof (elim disjE exE)
    fix c assume "e' = snd (spawn os c ?e3)"
    then show ?thesis using 1 2 3 4 [of c] by simp
  qed (use 1 2 3 in simp_all)
qed

lemma rank_ca_start:
  assumes k: "counts_children os r" and s: "ca_start cfg cid os m e = (x, m', e')"
  shows "r (world e') \<le> r (world e) + 1"
  using s
proof (cases rule: ca_start_cases)
  case missing
  then show ?thesis using rank_calls(2) [OF k, of "ca_binary cfg" e] by simp
next
  case (failed e1 err)
  then show ?thesis
    using rank_calls(2) [OF k, of "ca_binary cfg" e] rank_spawn_with_log [OF k failed(2)] by simp
next
  case (started e1 p)
  then show ?thesis
    using rank_calls(2) [OF k, of "ca_binary cfg" e] rank_spawn_with_log [OF k started(2)] by simp
qed

text \<open>The measure of the loop: children not yet reported, and restarts the CA has left.\<close>

lemma handle_child_death_rank:
  assumes k: "counts_children os r" and c: "unat (ca_crash_count ca) < 2 ^ 32 - 1"
    and h: "handle_child_death cfg os p vm ca e = (vm', ca', e')"
  shows "r (world e') + (5 - unat (ca_crash_count ca')) \<le> r (world e) + (5 - unat (ca_crash_count ca)) \<and>
    unat (ca_crash_count ca') \<le> unat (ca_crash_count ca) + 1"
proof -
  have u: "unat (ca_crash_count ca + 1) = unat (ca_crash_count ca) + 1"
    using c by (simp add: unat_Suc32)
  from h show ?thesis
  proof (cases rule: handle_child_death_cases)
    case (ca_restart x)
    have "ca_crash_count ca' = ca_crash_count (ca_mark_dead ca)" by (rule cas.crash_start [OF ca_restart(5)])
    then have cc: "unat (ca_crash_count ca') = unat (ca_crash_count ca) + 1"
      using u by (simp add: ca_mark_dead_def)
    moreover have "unat (ca_crash_count ca) + 1 < 5"
      using ca_restart(3) u by (simp add: word_less_nat_alt)
    ultimately show ?thesis using rank_ca_start [OF k ca_restart(5)] by simp
  qed (use u in \<open>auto simp: ca_mark_dead_def\<close>)
qed

text \<open>The pids whose death the kernel reported, in order.\<close>

fun reports :: "(instant \<times> event) list \<Rightarrow> pid list" where
  "reports [] = []"
| "reports ((t, EvWaitpid st) # evs) =
     (case reported st of None \<Rightarrow> reports evs | Some p \<Rightarrow> p # reports evs)"
| "reports (_ # evs) = reports evs"

lemma reports_append [simp]: "reports (xs @ ys) = reports xs @ reports ys"
  by (induction xs rule: reports.induct) (auto split: option.split)

lemma reports_inner: "\<forall>ev \<in> set evs. inner_event (snd ev) \<Longrightarrow> reports evs = []"
  by (induction evs rule: reports.induct) auto

lemma reports_op: "op_le e e' \<Longrightarrow> \<exists>evs. trace e' = trace e @ evs \<and> reports evs = []"
  by (auto simp: op_le_def dest: reports_inner)

lemma handle_child_death_env:
  assumes "handle_child_death cfg os p vm ca e = (vm', ca', e')"
  shows "op_le e e'"
  using assms by (cases rule: handle_child_death_cases) (auto dest: ca_start_env)

lemma waitpid_trace:
  assumes "waitpid_nohang os e = (st, e1)"
  shows "trace e1 = trace e @ [(clock e1, EvWaitpid st)]"
  using sys_facts(1) [OF assms [unfolded waitpid_nohang_def]] by simp

lemma reap_loop_returns:
  assumes k: "counts_children os r"
    and "unat (ca_crash_count ca) + r (world e) + (5 - unat (ca_crash_count ca)) < 2 ^ 32"
  shows "\<exists>b' vm' ca' e' evs. reap_loop cfg os b vm ca e = Some (b', vm', ca', e') \<and>
    trace e' = trace e @ evs \<and> length (reports evs) \<le> r (world e) + (5 - unat (ca_crash_count ca))"
  using assms(2)
proof (induction "r (world e) + (5 - unat (ca_crash_count ca))" arbitrary: b vm ca e rule: less_induct)
  case less
  obtain st e1 where w: "waitpid_nohang os e = (st, e1)" by fastforce
  note t1 = waitpid_trace [OF w]
  show ?case
  proof (cases "reported st")
    case None
    then show ?thesis using t1 by (simp add: reap_loop_step [OF w])
  next
    case (Some p)
    obtain vm2 ca2 e2 where h: "handle_child_death cfg os p vm ca e1 = (vm2, ca2, e2)"
      by (cases "handle_child_death cfg os p vm ca e1")
    have d: "r (world e1) + 1 \<le> r (world e)" using rank_calls(7) [OF k, of e] w Some by simp
    have g: "r (world e2) + (5 - unat (ca_crash_count ca2)) \<le> r (world e1) + (5 - unat (ca_crash_count ca)) \<and>
      unat (ca_crash_count ca2) \<le> unat (ca_crash_count ca) + 1"
      using less.prems d by (intro handle_child_death_rank [OF k _ h]) linarith
    have l: "r (world e2) + (5 - unat (ca_crash_count ca2)) < r (world e) + (5 - unat (ca_crash_count ca))"
      using g d by linarith
    obtain evs1 where evs1: "trace e2 = trace e1 @ evs1" "reports evs1 = []"
      using reports_op [OF handle_child_death_env [OF h]] by blast
    have b: "unat (ca_crash_count ca2) + r (world e2) + (5 - unat (ca_crash_count ca2)) < 2 ^ 32"
      using less.prems g l by linarith
    from less.hyps [OF l b] obtain b' vm' ca' e' evs where
      "reap_loop cfg os True vm2 ca2 e2 = Some (b', vm', ca', e')" "trace e' = trace e2 @ evs"
      "length (reports evs) \<le> r (world e2) + (5 - unat (ca_crash_count ca2))" by blast
    then show ?thesis using Some h t1 evs1 l by (simp add: reap_loop_step [OF w])
  qed
qed

text \<open>
  C8. Reaping ends. With a kernel that accounts for children (the named hypothesis), the
  loop of \<open>reap_children\<close> returns although it may start the CA again while it runs: it
  handles at most as many deaths as there are children, plus the restarts the CA has left.
\<close>

theorem reap_children_returns:
  assumes "counts_children os r" and "unat (ca_crash_count ca) + r (world e) + 5 < 2 ^ 32"
  shows "\<exists>b vm' ca' e' evs. reap_children cfg os vm ca e = Some (b, vm', ca', e') \<and>
    trace e' = trace e @ evs \<and> length (reports evs) \<le> r (world e) + (5 - unat (ca_crash_count ca))"
  using reap_loop_returns [OF assms(1), of ca e] assms(2) by (simp add: reap_children_def)

lemma sim_counts_children: "counts_children sim_os (\<lambda>w. length (s_procs w))"
proof -
  have "length (s_procs (snd (snd (snd (sim_waitpid w)))))
      + (if reported (fst (sim_waitpid w)) = None then 0 else 1) \<le> length (s_procs w)" for w
  proof (cases "filter (\<lambda>(p, s). s = Zombie) (s_procs w)")
    case Nil
    then show ?thesis by (simp add: sim_waitpid_def answer_def)
  next
    case (Cons z zs)
    obtain p s where z: "z = (p, s)" by fastforce
    have "z \<in> set (filter (\<lambda>(p, s). s = Zombie) (s_procs w))" unfolding Cons by simp
    then have "z \<in> set (s_procs w)" by simp
    then have "length (filter (\<lambda>(q, s). q \<noteq> p) (s_procs w)) < length (s_procs w)"
      unfolding z by (intro length_filter_less) auto
    then show ?thesis using Cons z by (simp add: sim_waitpid_def)
  qed
  then show ?thesis
    by (simp add: counts_children_def sim_os_def answer_def sim_spawn_def sim_metadata_def)
qed

theorem reap_children_returns_witness:
  "\<exists>b vm' ca' e' evs. reap_children default_config sim_os vm_new
      (ca_new\<lparr>ca_state := Ca_Running, ca_child_pid := Some 7\<rparr>)
      (sim_env (sim_world\<lparr>s_procs := [(7, Zombie)]\<rparr>)) = Some (b, vm', ca', e') \<and>
     trace e' = [] @ evs \<and> length (reports evs) \<le> 6"
  using reap_children_returns [OF sim_counts_children,
      of "ca_new\<lparr>ca_state := Ca_Running, ca_child_pid := Some 7\<rparr>"
         "sim_env (sim_world\<lparr>s_procs := [(7, Zombie)]\<rparr>)" default_config vm_new]
  by (simp add: ca_new_def sim_env_def)

section \<open>The inherited listener\<close>

lemma all_digits_dec: "all_digits (dec n)"
proof (induction n rule: dec.induct)
  case (1 n)
  have d: "(48 :: nat) \<le> of_char (digit_char k) \<and> (of_char (digit_char k) :: nat) \<le> 57" if "k < 10" for k
    using that by (simp add: of_char_digit)
  show ?case
  proof (cases "n < 10")
    case True
    then show ?thesis using d by (simp add: dec.simps [of n] all_digits_def)
  next
    case False
    with 1 have "all_digits (dec (n div 10))" by simp
    then show ?thesis using False d [of "n mod 10"] by (auto simp: dec.simps [of n] all_digits_def)
  qed
qed

lemma hd_dec: "hd (dec n) \<noteq> CHR ''-''" "hd (dec n) \<noteq> CHR ''+''"
proof -
  have "(48 :: nat) \<le> of_char (hd (dec n))"
    using all_digits_dec [of n] by (auto simp: all_digits_def)
  then show "hd (dec n) \<noteq> CHR ''-''" "hd (dec n) \<noteq> CHR ''+''" by auto
qed

lemma parse_i32_dec: "parse_i32 (dec n) = (if n < 2 ^ 31 then Some (int n) else None)"
  using all_digits_dec [of n] hd_dec [of n]
  by (auto simp: parse_i32_def Let_def undec_dec all_digits_def)

text \<open>
  C39. The socket handed over by init: when the environment variable holds a descriptor
  printed in decimal, the daemon listens on exactly that descriptor and touches no file.
  A number too large for a descriptor is refused, and the daemon binds its own socket.
\<close>

theorem inherited_listener:
  assumes "fst (env_var os ''ANDROID_SOCKET_teeproxyd'' e) = Some (dec n)"
  shows "if n < 2 ^ 31
    then \<exists>e'. acquire_listener cfg os e = Some (Inherited (int n), e') \<and> trace e' = trace e
    else \<forall>l e'. acquire_listener cfg os e = Some (l, e') \<longrightarrow>
           l = Bound (path_join (data_dir cfg) ''teeproxyd.sock'') \<and>
           (\<exists>evs t b. trace e' = trace e @ evs @ [(t, EvBind (path_join (data_dir cfg) ''teeproxyd.sock'') b)] \<and> b)"
proof -
  obtain e1 where v: "env_var os ''ANDROID_SOCKET_teeproxyd'' e = (Some (dec n), e1)"
    using assms by (metis prod.collapse)
  have t: "trace e1 = trace e" using sys_facts(1) [OF v [unfolded env_var_def]] by simp
  let ?p = "path_join (data_dir cfg) ''teeproxyd.sock''"
  obtain b2 e2 where r: "remove_file os ?p e1 = (b2, e2)" by fastforce
  obtain b3 e3 where b: "bind_listener os ?p e2 = (b3, e3)" by fastforce
  have "trace e3 = trace e @ [(clock e2, EvRemoveFile ?p b2)] @ [(clock e3, EvBind ?p b3)]"
    using sys_facts(1) [OF r [unfolded remove_file_def]] sys_facts(1) [OF b [unfolded bind_listener_def]] t
    by simp
  then show ?thesis
    using v r b t by (auto simp: acquire_listener_def parse_i32_dec split: if_splits)
qed

theorem inherited_listener_witness:
  "\<exists>e'. acquire_listener default_config (sim_os\<lparr>os_env_var := (\<lambda>_. answer (Some ''12'') 0)\<rparr>)
     (sim_env sim_world) = Some (Inherited 12, e') \<and> trace e' = trace (sim_env sim_world)"
proof -
  have d: "dec 12 = ''12''" by code_simp
  have "fst (env_var (sim_os\<lparr>os_env_var := (\<lambda>_. answer (Some ''12'') 0)\<rparr>) ''ANDROID_SOCKET_teeproxyd''
      (sim_env sim_world)) = Some (dec 12)"
    unfolding d by (simp add: env_var_def env_simps answer_def)
  from inherited_listener [OF this] show ?thesis by simp
qed

end
