(* ===== verification/Daemon_Run.thy ===== *)
theory Daemon_Run
  imports Daemon
begin

text \<open>
  Facts about whole runs of the daemon. A fact about the two managers and the environment is
  lifted from the operations of the managers to everything the daemon does with them by the
  locales below: \<open>kept_fact\<close> for all operations but becoming ready, \<open>boot_fact\<close>, which
  adds that one. The properties of runs are interpretations of these locales.
\<close>

section \<open>Rules for the two loops\<close>

lemma reap_loop_induct [consumes 1, case_names stop death]:
  assumes "reap_loop cfg os b vm ca e = Some (b', vm', ca', e')"
    and stop: "\<And>b vm ca e st e1. waitpid_nohang os e = (st, e1) \<Longrightarrow> reported st = None \<Longrightarrow>
      P b vm ca e b vm ca e1"
    and death: "\<And>b vm ca e st e1 p vm1 ca1 e2 b' vm' ca' e'.
      waitpid_nohang os e = (st, e1) \<Longrightarrow> reported st = Some p \<Longrightarrow>
      handle_child_death cfg os p vm ca e1 = (vm1, ca1, e2) \<Longrightarrow>
      P True vm1 ca1 e2 b' vm' ca' e' \<Longrightarrow> P b vm ca e b' vm' ca' e'"
  shows "P b vm ca e b' vm' ca' e'"
proof -
  let ?Q = "\<lambda>c s b vm ca e y. c = cfg \<longrightarrow> s = os \<longrightarrow>
    P b vm ca e (fst y) (fst (snd y)) (fst (snd (snd y))) (snd (snd (snd y)))"
  have step: "?Q c s b vm ca e y"
    if ih: "\<And>c s b vm ca e y. f c s b vm ca e = Some y \<Longrightarrow> ?Q c s b vm ca e y"
    and eq: "(case waitpid_nohang s e of (status, e1) \<Rightarrow> case status of
          WExited p code \<Rightarrow> (case handle_child_death c s p vm ca e1 of (vm1, ca1, e2) \<Rightarrow> f c s True vm1 ca1 e2)
        | WSignaled p sig \<Rightarrow> (case handle_child_death c s p vm ca e1 of (vm1, ca1, e2) \<Rightarrow> f c s True vm1 ca1 e2)
        | WStillAlive \<Rightarrow> Some (b, vm, ca, e1) | WError \<Rightarrow> Some (b, vm, ca, e1)
        | WOther \<Rightarrow> Some (b, vm, ca, e1)) = Some y"
    for f c s b vm ca e y
  proof (intro impI)
    assume [simp]: "c = cfg" "s = os"
    obtain st e1 where w: "waitpid_nohang os e = (st, e1)" by fastforce
    show "P b vm ca e (fst y) (fst (snd y)) (fst (snd (snd y))) (snd (snd (snd y)))"
    proof (cases "reported st")
      case None
      with eq w show ?thesis using stop [OF w None, of b vm ca] by (cases st) auto
    next
      case (Some p)
      obtain vm1 ca1 e2 where h: "handle_child_death cfg os p vm ca e1 = (vm1, ca1, e2)"
        by (cases "handle_child_death cfg os p vm ca e1")
      have "f cfg os True vm1 ca1 e2 = Some y" using eq w Some h by (cases st) auto
      from ih [OF this] show ?thesis by (intro death [OF w Some h]) simp
    qed
  qed
  have "?Q cfg os b vm ca e (b', vm', ca', e')"
  proof (rule reap_loop.raw_induct [where P = ?Q, OF _ assms(1)], goal_cases)
    case (1 f c s b vm ca e y)
    show ?case by (rule step [where f = f, OF 1(1) 1(2)]) assumption
  qed
  then show ?thesis by simp
qed

lemma main_iter_cases:
  assumes "main_iter js cfg os t d e = Some (brk, d', e')"
  obtains
    (leave) now e1 ready e2 vm1 ca1 where "instant_now os e = (now, e1)"
      "poll_fds os (unat (poll_timeout (d_phase d) (health_interval cfg - elapsed now (d_last_health d)))) e1
         = (ready, e2)"
      "sig_ready e1 ready e2" "check_signals cfg os (d_vm d) (d_ca d) e2 = Some (True, vm1, ca1, e')"
      "brk" "d' = d\<lparr>d_vm := vm1, d_ca := ca1\<rparr>"
  | (turn) now e1 ready e2 vm1 ca1 e3 vm2 ca2 e4 ph vm3 ca3 e5 h ca4 last_health e6 vm4 e7 ca5 where
      "instant_now os e = (now, e1)"
      "poll_fds os (unat (poll_timeout (d_phase d) (health_interval cfg - elapsed now (d_last_health d)))) e1
         = (ready, e2)"
      "(if sig_ready e1 ready e2 then check_signals cfg os (d_vm d) (d_ca d) e2
        else Some (False, d_vm d, d_ca d, e2)) = Some (False, vm1, ca1, e3)"
      "serve_ipc js cfg os (d_phase d) t vm1 ca1 e3 = Some (vm2, ca2, e4)
        \<or> vm2 = vm1 \<and> ca2 = ca1 \<and> e4 = e3"
      "advance_startup cfg os (d_phase d) vm2 ca2 e4 = Some (ph, vm3, ca3, e5)"
      "health_check cfg os (d_health d) ca3 (d_last_health d) e5 = Some (h, ca4, last_health, e6)"
      "vm_maybe_reset_crash_count os vm3 e6 = (vm4, e7)"
      "ca_maybe_reset_crash_count os ca4 e7 = (ca5, e')"
      "\<not> brk" "d' = \<lparr>d_vm = vm4, d_ca = ca5, d_health = h, d_phase = ph, d_last_health = last_health\<rparr>"
proof -
  obtain now e1 where n: "instant_now os e = (now, e1)" by fastforce
  obtain ready e2 where p: "poll_fds os (unat (poll_timeout (d_phase d)
      (health_interval cfg - elapsed now (d_last_health d)))) e1 = (ready, e2)" by fastforce
  let ?sig = "if sig_ready e1 ready e2 then check_signals cfg os (d_vm d) (d_ca d) e2
        else Some (False, d_vm d, d_ca d, e2)"
  note m = assms [unfolded main_iter_def Let_def n p prod.case]
  obtain got_term vm1 ca1 e3 where s: "?sig = Some (got_term, vm1, ca1, e3)"
    using m by (auto simp: bind_Some_iff)
  show thesis
  proof (cases got_term)
    case True
    then show thesis using m s n p by (intro that(1)) (auto split: if_splits)
  next
    case False
    let ?ipc = "case ready of Some (True, _) \<Rightarrow> serve_ipc js cfg os (d_phase d) t vm1 ca1 e3
             | _ \<Rightarrow> Some (vm1, ca1, e3)"
    from m s False obtain vm2 ca2 e4 ph vm3 ca3 e5 h ca4 last_health e6 where
      i: "?ipc = Some (vm2, ca2, e4)"
      and a: "advance_startup cfg os (d_phase d) vm2 ca2 e4 = Some (ph, vm3, ca3, e5)"
      and h: "health_check cfg os (d_health d) ca3 (d_last_health d) e5 = Some (h, ca4, last_health, e6)"
      by (auto simp: bind_Some_iff)
    obtain vm4 e7 where v: "vm_maybe_reset_crash_count os vm3 e6 = (vm4, e7)" by fastforce
    obtain ca5 e8 where c: "ca_maybe_reset_crash_count os ca4 e7 = (ca5, e8)" by fastforce
    have r: "\<not> brk" "d' = \<lparr>d_vm = vm4, d_ca = ca5, d_health = h, d_phase = ph, d_last_health = last_health\<rparr>"
      "e' = e8" using m s False i a h v c by auto
    have "serve_ipc js cfg os (d_phase d) t vm1 ca1 e3 = Some (vm2, ca2, e4)
        \<or> vm2 = vm1 \<and> ca2 = ca1 \<and> e4 = e3"
      using i by (auto split: option.splits prod.splits bool.splits)
    with n p s False a h v c r show thesis by (intro that(2)) auto
  qed
qed

section \<open>Time and the trace only grow\<close>

lemma reap_env:
  assumes "reap_children cfg os vm ca e = Some (b, vm', ca', e')"
  shows "env_le e e'"
  using assms unfolding reap_children_def
proof (induct rule: reap_loop_induct)
  case (stop b vm ca e st e1)
  then show ?case using loop_call_env_le(4) [of e os] by simp
next
  case (death b vm ca e st e1 p vm1 ca1 e2 b' vm' ca' e')
  have "env_le e e1" using loop_call_env_le(4) [of e os] death(1) by simp
  also have "env_le e1 e2" by (rule op_le_env_le [OF handle_child_death_env [OF death(3)]])
  also note death(4)
  finally show ?case .
qed

lemma check_signals_clock:
  assumes "check_signals cfg os vm ca e = Some (b, vm', ca', e')"
  shows "clock e \<le> clock e'"
  using assms reap_env [of cfg os vm ca "snd (read_sigpipe 64 e)"]
  by (auto simp: check_signals_def bind_Some_iff read_sigpipe_def env_le_def split: if_splits)

lemma serve_ipc_env:
  assumes "serve_ipc js cfg os ph t vm ca e = Some (vm', ca', e')"
  shows "env_le e e'"
proof -
  obtain c e1 where a: "accept os e = (c, e1)" by fastforce
  have 1: "env_le e e1" using loop_call_env_le(2) [of e os] a by simp
  show ?thesis
  proof (cases c)
    case None
    then show ?thesis using assms a 1 by (simp add: serve_ipc_def)
  next
    case (Some conn)
    then have "env_le e1 e'"
      using assms a by (intro client_loop_env_le) (simp add: serve_ipc_def handle_client_def)
    with 1 show ?thesis by (rule env_le_trans)
  qed
qed

section \<open>Steps that touch no process\<close>

definition calm :: "'w env \<Rightarrow> 'w env \<Rightarrow> bool" where
  "calm e e' \<longleftrightarrow> clock e \<le> clock e' \<and> sig_pipe_fd e' = sig_pipe_fd e \<and>
     (\<exists>evs. trace e' = trace e @ evs \<and> spawned evs = [] \<and> sent_signals evs = [] \<and> commands evs = [] \<and>
        reports evs = [])"

named_theorems calm_intros "operations that start, run, signal and reap no process"

lemma calm_refl [simp, intro]: "calm e e"
  by (simp add: calm_def)

lemma calm_trans [trans]: "calm a b \<Longrightarrow> calm b c \<Longrightarrow> calm a c"
  by (fastforce simp: calm_def)

lemma calm_op: "op_le e e' \<Longrightarrow> quiet e e' \<Longrightarrow> calm e e'"
  using reports_inner by (fastforce simp: calm_def op_le_def quiet_def)

lemma calm_calls [calm_intros]:
  "calm e (snd (instant_now os e))" "calm e (snd (poll_fds os ms e))" "calm e (snd (accept os e))"
  "calm e (snd (reply os s e))" "calm e (recv_wait os e)" "calm e (snd (is_alive os p e))"
  "calm e (snd (read_sigpipe n e))" "calm e (snd (connect_timeout os port secs e))"
  "calm e (http_exchange os req n e)"
  unfolding instant_now_def poll_fds_def accept_def reply_def recv_wait_def is_alive_def kill_def
    connect_timeout_def http_exchange_def Let_def snd_conv
  by (simp_all add: calm_def read_sigpipe_def env_simps)

lemma calm_waitpid: "waitpid_nohang os e = (st, e1) \<Longrightarrow> reported st = None \<Longrightarrow> calm e e1"
  using waitpid_trace [of os e st e1] loop_call_env_le(4) [of e os]
  by (auto simp: calm_def env_le_def)

lemma calm_write_response [calm_intros]: "calm e (snd (write_response js os r e))"
  by (simp add: write_response_def Let_def calm_calls)

lemma calm_vm_is_dead: "calm e (snd (vm_is_dead os m e))"
  by (auto simp: vm_is_dead_def case_prod_beta calm_calls split: option.split)

lemma calm_ca_is_dead: "calm e (snd (ca_is_dead os m e))"
  by (auto simp: ca_is_dead_def case_prod_beta calm_calls split: option.split)

lemma calm_health_probe:
  assumes "health_probe os h e = (r, h', e')"
  shows "calm e e'"
  using assms calm_calls(8) [of e os "hm_port h" 2] calm_trans [OF calm_calls(8) calm_calls(9)]
  by (auto simp: health_probe_def case_prod_beta Let_def split: sum.splits prod.splits)

lemma advance_startup_cases:
  assumes "advance_startup cfg os ph vm ca e = Some (ph', vm', ca', e')"
  obtains
    (dead) "\<not> settled ph" "vm' = vm" "ca' = ca" "calm e e'"
      "ph' \<in> {VmStarting, CaStarting, Failed ''VM crashed too many times'', Failed ''CA crashed too many times''}"
  | (moves) e1 where "calm e e1" "startup_match cfg os ph vm ca e1 = Some (ph', vm', ca', e')"
proof -
  obtain vd e1 where v: "vm_is_dead os vm e = (vd, e1)" by fastforce
  obtain cd e2 where c: "ca_is_dead os ca e1 = (cd, e2)" by fastforce
  have e1: "calm e e1" using calm_vm_is_dead [of e os vm] v by simp
  have e2: "calm e e2" using calm_trans [OF e1] calm_ca_is_dead [of e1 os ca] c by simp
  show thesis
  proof (cases "vd \<and> \<not> settled ph \<or> cd \<and> waiting_ca_port ph")
    case True
    then show thesis using assms v c e1 e2
      by (intro that(1)) (auto simp: advance_startup_def split: if_splits elim: waiting_ca_port.elims)
  next
    case False
    then show thesis using assms v c e2 by (intro that(2)) (auto simp: advance_startup_def)
  qed
qed

lemma advance_startup_settled:
  assumes "advance_startup cfg os ph vm ca e = Some (ph', vm', ca', e')" "settled ph"
  shows "ph' = ph \<and> vm' = vm \<and> ca' = ca \<and> calm e e'"
  using assms(1)
proof (cases rule: advance_startup_cases)
  case (moves e1)
  then show ?thesis using assms(2) by (cases ph) (auto simp: startup_match_def)
qed (use assms(2) in simp)

lemma health_probe_env:
  assumes "health_probe os h e = (r, h', e')"
  shows "op_le e e'"
  using assms call_op_le(12) [of e os "hm_port h" 2] op_le_trans [OF call_op_le(12) call_op_le(13)]
  by (auto simp: health_probe_def case_prod_beta Let_def split: sum.splits prod.splits)

lemma health_check_cases:
  assumes "health_check cfg os h ca lh e = Some (h', ca', lh', e')"
  obtains
    (not_due) now where "instant_now os e = (now, e')" "\<not> health_interval cfg \<le> elapsed now lh"
      "h' = h" "ca' = ca" "lh' = lh"
  | (skipped) now e1 where "instant_now os e = (now, e1)" "health_interval cfg \<le> elapsed now lh"
      "ca_state ca \<noteq> Ca_Ready" "ca_state ca \<noteq> Ca_Running" "h' = h" "ca' = ca" "instant_now os e1 = (lh', e')"
  | (probed) now e1 r e2 where "instant_now os e = (now, e1)" "health_interval cfg \<le> elapsed now lh"
      "health_probe os h e1 = (r, h', e2)" "r \<noteq> RestartNeeded" "ca' = ca" "instant_now os e2 = (lh', e')"
  | (restarted) now e1 e2 ca1 e3 x e4 where "instant_now os e = (now, e1)"
      "health_interval cfg \<le> elapsed now lh" "health_probe os h e1 = (RestartNeeded, h', e2)"
      "ca_stop cfg os ca e2 = Some (ca1, e3)" "ca_start cfg (vsock_cid cfg) os ca1 e3 = (x, ca', e4)"
      "instant_now os e4 = (lh', e')" "ca_state ca = Ca_Ready \<or> ca_state ca = Ca_Running"
proof -
  obtain now e1 where n: "instant_now os e = (now, e1)" by fastforce
  obtain r h1 e2 where p: "health_probe os h e1 = (r, h1, e2)" by (cases "health_probe os h e1")
  note d = assms [unfolded health_check_def Let_def n prod.case]
  consider "\<not> health_interval cfg \<le> elapsed now lh"
    | "health_interval cfg \<le> elapsed now lh" "\<not> (ca_state ca = Ca_Ready \<or> ca_state ca = Ca_Running)"
    | "health_interval cfg \<le> elapsed now lh" "ca_state ca = Ca_Ready \<or> ca_state ca = Ca_Running" "r \<noteq> RestartNeeded"
    | "health_interval cfg \<le> elapsed now lh" "ca_state ca = Ca_Ready \<or> ca_state ca = Ca_Running" "r = RestartNeeded"
    by blast
  then show thesis
  proof cases
    case 1
    then show thesis using d n by (intro that(1)) auto
  next
    case 2
    then show thesis using d n by (intro that(2)) auto
  next
    case 3
    then have "h' = h1 \<and> ca' = ca \<and> instant_now os e2 = (lh', e')"
      using d p by (cases r) auto
    then show thesis using n p 3 by (intro that(3)) auto
  next
    case 4
    then obtain ca1 e3 where s: "ca_stop cfg os ca e2 = Some (ca1, e3)"
      using d p by (cases "ca_stop cfg os ca e2") auto
    obtain x ca2 e4 where c: "ca_start cfg (vsock_cid cfg) os ca1 e3 = (x, ca2, e4)"
      by (cases "ca_start cfg (vsock_cid cfg) os ca1 e3")
    have "h' = h1 \<and> ca' = ca2 \<and> instant_now os e4 = (lh', e')" using d p s c 4 by auto
    then show thesis using n p s c 4 by (intro that(4)) auto
  qed
qed

text \<open>
  C12. The health check of the loop. It touches a process only when it is due, the CA is
  ready or running, and the monitor asks for a restart. Then, after the probe, the CA's old
  process is killed gracefully and a start of the configured CA follows: either it succeeds,
  and the CA runs under the new pid, or the trace shows why it could not and the CA owns
  nothing. Nothing else is started, run or signalled. The crash counter is not touched, so
  restarts for bad health are not limited by the five strikes, and the CA is not ready
  afterwards. In every other case the CA is left alone.
\<close>

theorem health_check_restarts:
  assumes "health_check cfg os h ca lh e = Some (h', ca', lh', e')"
  shows "\<exists>evs0 evs1 evs2. trace e' = trace e @ evs0 @ evs1 @ evs2 \<and>
    spawned evs0 = [] \<and> sent_signals evs0 = [] \<and> commands evs0 = [] \<and>
    (if health_interval cfg \<le> elapsed (fst (instant_now os e)) lh \<and>
        (ca_state ca = Ca_Ready \<or> ca_state ca = Ca_Running) \<and>
        fst (health_probe os h (snd (instant_now os e))) = RestartNeeded
     then ca_stopped cfg (ca_child_pid ca) evs1 \<and>
       sent_signals evs2 = [] \<and> commands evs2 = [] \<and>
       ((\<exists>q. spawned evs2 = [(ca_command cfg (vsock_cid cfg), Inr q)] \<and>
           ca_child_pid ca' = Some q \<and> ca_state ca' = Ca_Running) \<or>
        ca_start_failed cfg evs2 \<and> (\<forall>(c, x) \<in> set (spawned evs2). isl x) \<and>
           ca_child_pid ca' = None \<and> ca_state ca' \<in> {Ca_Idle, Ca_Starting}) \<and>
       ca_crash_count ca' = ca_crash_count ca \<and> ca_ready_since ca' = None
     else ca' = ca \<and> evs1 = [] \<and> evs2 = [])"
  using assms
proof (cases rule: health_check_cases)
  case (not_due now)
  then have "quiet e e'" using quiet_calls(8) [of e os] by simp
  then show ?thesis using not_due by (fastforce simp: quiet_def)
next
  case (skipped now e1)
  have "quiet e e1" using quiet_calls(8) [of e os] skipped(1) by simp
  also have "quiet e1 e'" using quiet_calls(8) [of e1 os] skipped(7) by simp
  finally have "quiet e e'" .
  then show ?thesis using skipped by (fastforce simp: quiet_def)
next
  case (probed now e1 r e2)
  have "calm e e1" using calm_calls(1) [of e os] probed(1) by simp
  also have "calm e1 e2" by (rule calm_health_probe [OF probed(3)])
  also have "calm e2 e'" using calm_calls(1) [of e2 os] probed(6) by simp
  finally have "calm e e'" .
  then show ?thesis using probed by (fastforce simp: calm_def)
next
  case (restarted now e1 e2 ca1 e3 x e4)
  have "calm e e1" using calm_calls(1) [of e os] restarted(1) by simp
  also have "calm e1 e2" by (rule calm_health_probe [OF restarted(3)])
  finally obtain evs0 where 0: "trace e2 = trace e @ evs0" "spawned evs0 = []" "sent_signals evs0 = []"
    "commands evs0 = []" by (auto simp: calm_def)
  obtain evs1 where 1: "trace e3 = trace e2 @ evs1" "ca_stopped cfg (ca_child_pid ca) evs1"
    using ca_stop_effect [OF restarted(4)] by blast
  have stopped: "ca1 = ca\<lparr>ca_state := Ca_Idle, ca_child_pid := None, ca_ready_since := None\<rparr>"
    using restarted(4) by (cases rule: ca_stop_cases) auto
  obtain evs2 where 2: "trace e4 = trace e3 @ evs2" "sent_signals evs2 = []" "commands evs2 = []"
    "(\<exists>q. spawned evs2 = [(ca_command cfg (vsock_cid cfg), Inr q)] \<and>
         ca_child_pid ca' = Some q \<and> ca_state ca' = Ca_Running) \<or>
     ca_start_failed cfg evs2 \<and> (\<forall>(c, x) \<in> set (spawned evs2). isl x) \<and>
         ca_child_pid ca' = None \<and> ca_state ca' \<in> {Ca_Idle, Ca_Starting}"
    using ca_start_effect [OF restarted(5)] by (cases x) (fastforce simp: stopped)+
  have "trace e' = trace e4" using instant_now_trace [of os e4] restarted(6) by simp
  then have "trace e' = trace e @ evs0 @ evs1 @ evs2" using 0 1 2 by simp
  moreover have "ca_crash_count ca' = ca_crash_count ca" "ca_ready_since ca' = None"
    using cas.crash_start [OF restarted(5)] cas.since_start [OF restarted(5)] by (simp_all add: stopped)
  ultimately show ?thesis
    using restarted(1-3,7) 0(2-4) 1(2) 2(2-4)
    by (intro exI [of _ evs0] exI [of _ evs1] exI [of _ evs2]) simp
qed

theorem health_check_restarts_witness:
  "\<exists>h' ca' lh' e' q. health_check default_config ((sim_os_fs (\<lambda>_. Some 1))\<lparr>os_connect := (\<lambda>_ _. answer (Inl
        (IoError ConnectionRefused ''Connection refused'')) 0)\<rparr>) (health_new 19030 1)
      (ca_new\<lparr>ca_state := Ca_Ready, ca_child_pid := Some 7\<rparr>) 0 ((sim_env sim_world)\<lparr>clock := 20 * ns_per_sec\<rparr>)
      = Some (h', ca', lh', e') \<and> ca_ready_since ca' = None \<and> ca_state ca' = Ca_Running \<and>
      ca_child_pid ca' = Some q"
proof -
  let ?os = "(sim_os_fs (\<lambda>_. Some 1))\<lparr>os_connect := (\<lambda>_ _. answer (Inl (IoError ConnectionRefused ''Connection refused'')) 0)\<rparr>"
  let ?ca = "ca_new\<lparr>ca_state := Ca_Ready, ca_child_pid := Some 7\<rparr>" and ?h = "health_new 19030 1"
  let ?e = "(sim_env sim_world)\<lparr>clock := 20 * ns_per_sec\<rparr>"
  have "\<exists>h' ca' lh' e'. health_check default_config ?os ?h ?ca 0 ?e = Some (h', ca', lh', e') \<and>
      ca_state ca' = Ca_Running"
    by (simp add: health_check_def health_interval_def health_probe_def health_new_def ca_stop_def
        graceful_kill_def grace_wait.simps is_alive_def ca_new_def ca_start_def spawn_with_log_def
        rotate_if_needed_def max_log_bytes_def default_defs sim_eval)
  then obtain h' ca' lh' e' where c: "health_check default_config ?os ?h ?ca 0 ?e = Some (h', ca', lh', e')"
    "ca_state ca' = Ca_Running" by blast
  have "fst (health_probe ?os ?h (snd (instant_now ?os ?e))) = RestartNeeded"
    and "health_interval default_config \<le> elapsed (fst (instant_now ?os ?e)) 0"
    by (simp_all add: health_probe_def health_new_def health_interval_def default_defs sim_eval)
  then show ?thesis
    using health_check_restarts [OF c(1)] c by (auto simp: ca_new_def)
qed

lemma health_check_env:
  assumes "health_check cfg os h ca lh e = Some (h', ca', lh', e')"
  shows "op_le e e'"
  using assms
proof (cases rule: health_check_cases)
  case (not_due now)
  then show ?thesis using call_op_le(18) [of e os] by simp
next
  case (skipped now e1)
  then show ?thesis using op_le_trans [OF _ call_op_le(18) [of e1 os]] call_op_le(18) [of e os] by simp
next
  case (probed now e1 r e2)
  have "op_le e e1" using call_op_le(18) [of e os] probed(1) by simp
  also have "op_le e1 e2" by (rule health_probe_env [OF probed(3)])
  also have "op_le e2 e'" using call_op_le(18) [of e2 os] probed(6) by simp
  finally show ?thesis .
next
  case (restarted now e1 e2 ca1 e3 x e4)
  have "op_le e e1" using call_op_le(18) [of e os] restarted(1) by simp
  also have "op_le e1 e2" by (rule health_probe_env [OF restarted(3)])
  also have "op_le e2 e3" by (rule ca_stop_env [OF restarted(4)])
  also have "op_le e3 e4" by (rule ca_start_env [OF restarted(5)])
  also have "op_le e4 e'" using call_op_le(18) [of e4 os] restarted(6) by simp
  finally show ?thesis .
qed

section \<open>Facts kept by everything the daemon does\<close>

locale kept_fact =
  fixes cfg :: config
    and os :: "'w os"
    and I :: "vm_manager \<Rightarrow> ca_manager \<Rightarrow> 'w env \<Rightarrow> bool"
  assumes calm: "I vm ca e \<Longrightarrow> calm e e' \<Longrightarrow> I vm ca e'"
    and vm_death: "I vm ca e \<Longrightarrow> waitpid_nohang os e = (st, e1) \<Longrightarrow> reported st = Some p \<Longrightarrow>
      vm_child_pid vm = Some p \<Longrightarrow> I (vm_mark_dead vm) ca e1"
    and ca_death: "I vm ca e \<Longrightarrow> waitpid_nohang os e = (st, e1) \<Longrightarrow> reported st = Some p \<Longrightarrow>
      vm_child_pid vm \<noteq> Some p \<Longrightarrow> ca_child_pid ca = Some p \<Longrightarrow> I vm (ca_mark_dead ca) e1"
    and other_death: "I vm ca e \<Longrightarrow> waitpid_nohang os e = (st, e1) \<Longrightarrow> reported st = Some p \<Longrightarrow>
      vm_child_pid vm \<noteq> Some p \<Longrightarrow> ca_child_pid ca \<noteq> Some p \<Longrightarrow> I vm ca e1"
    and vm_error: "I vm ca e \<Longrightarrow> vm_child_pid vm = None \<Longrightarrow> vm_ready_since vm = None \<Longrightarrow>
      5 \<le> vm_crash_count vm \<Longrightarrow> I (vm\<lparr>vm_state := Vm_Error\<rparr>) ca e"
    and ca_error: "I vm ca e \<Longrightarrow> ca_child_pid ca = None \<Longrightarrow> ca_ready_since ca = None \<Longrightarrow>
      5 \<le> ca_crash_count ca \<Longrightarrow> I vm (ca\<lparr>ca_state := Ca_Error\<rparr>) e"
    and vm_start_kept: "I vm ca e \<Longrightarrow> vm_start cfg os vm e = (r, vm', e') \<Longrightarrow> I vm' ca e'"
    and ca_start_kept: "I vm ca e \<Longrightarrow> ca_start cfg (vsock_cid cfg) os ca e = (r, ca', e') \<Longrightarrow> I vm ca' e'"
    and vm_stop_kept: "I vm ca e \<Longrightarrow> vm_stop cfg os vm e = Some (vm', e') \<Longrightarrow> I vm' ca e'"
    and ca_stop_kept: "I vm ca e \<Longrightarrow> ca_stop cfg os ca e = Some (ca', e') \<Longrightarrow> I vm ca' e'"
    and vm_reset_kept: "I vm ca e \<Longrightarrow> vm_maybe_reset_crash_count os vm e = (vm', e') \<Longrightarrow> I vm' ca e'"
    and ca_reset_kept: "I vm ca e \<Longrightarrow> ca_maybe_reset_crash_count os ca e = (ca', e') \<Longrightarrow> I vm ca' e'"
begin

lemma death_kept:
  assumes "I vm ca e" "waitpid_nohang os e = (st, e1)" "reported st = Some p"
    "handle_child_death cfg os p vm ca e1 = (vm', ca', e')"
  shows "I vm' ca' e'"
  using assms(4)
proof (cases rule: handle_child_death_cases)
  case vm_died
  then show ?thesis
    using vm_death [OF assms(1-3)] vm_error [OF vm_death [OF assms(1-3)]]
    by (auto simp: vm_mark_dead_def)
next
  case (ca_restart r)
  then show ?thesis using ca_death [OF assms(1-3)] ca_start_kept by blast
next
  case ca_error
  then show ?thesis
    using kept_fact.ca_error [OF kept_fact_axioms ca_death [OF assms(1-3)]]
    by (simp add: ca_mark_dead_def not_less)
next
  case unknown
  then show ?thesis using other_death [OF assms(1-3)] by simp
qed

lemma reap_kept:
  assumes "reap_children cfg os vm ca e = Some (b', vm', ca', e')" "I vm ca e"
  shows "I vm' ca' e'"
  using assms unfolding reap_children_def
proof (induct rule: reap_loop_induct)
  case (stop b vm ca e st e1)
  then show ?case using calm calm_waitpid by blast
next
  case (death b vm ca e st e1 p vm1 ca1 e2 b' vm' ca' e')
  then show ?case using death_kept by blast
qed

lemma dispatch_kept:
  assumes "dispatch js cfg os ph t req vm ca e = Some (resp, vm', ca', e')" "I vm ca e"
  shows "I vm' ca' e'"
  using assms(1)
proof (cases rule: dispatch_cases)
  case reads
  then show ?thesis using calm [OF assms(2) calm_op [OF reads(4,3)]] by simp
next
  case (starts_vm r)
  then show ?thesis using vm_start_kept [OF assms(2)] by blast
next
  case (stops_all e1)
  then show ?thesis using vm_stop_kept [OF ca_stop_kept [OF assms(2)]] by blast
next
  case stops_vm
  then show ?thesis using vm_stop_kept [OF assms(2)] by blast
next
  case (starts_ca r)
  then show ?thesis using ca_start_kept [OF assms(2)] by blast
next
  case stops_ca
  then show ?thesis using ca_stop_kept [OF assms(2)] by blast
qed

lemma client_kept:
  assumes "client_loop js cfg os ph t bs en vm ca e = Some (vm', ca', e')" "I vm ca e"
  shows "I vm' ca' e'"
proof -
  have "I vm ca e \<longrightarrow> I vm' ca' e'" using assms(1)
  proof (induct rule: client_loop_induct)
    case (finish bs vm ca e)
    then show ?case using calm calm_calls(5) by blast
  next
    case (blank bs raw rest vm ca e vm' ca' e')
    then show ?case using calm calm_calls(5) by blast
  next
    case (bad bs raw rest err vm ca e vm' ca' e')
    then show ?case using calm calm_calls(5) calm_write_response by blast
  next
    case (served bs raw rest req resp vm1 ca1 e2 e3 vm ca e vm' ca' e')
    have "calm e2 e3" using calm_write_response [of e2 js os resp] served(5) by simp
    then show ?case using calm [OF _ calm_calls(5)] dispatch_kept [OF served(4)] served(6) calm by blast
  next
    case (gone bs raw rest req resp e2 vm ca e vm' ca' e')
    have "calm e2 e'" using calm_write_response [of e2 js os resp] gone(5) by simp
    then show ?case using calm [OF _ calm_calls(5)] dispatch_kept [OF gone(4)] calm by blast
  qed
  then show ?thesis using assms(2) by blast
qed

lemma serve_ipc_kept:
  assumes "serve_ipc js cfg os ph t vm ca e = Some (vm', ca', e')" "I vm ca e"
  shows "I vm' ca' e'"
proof -
  obtain c e1 where a: "accept os e = (c, e1)" by fastforce
  have "I vm ca e1" using calm [OF assms(2) calm_calls(3) [of e os]] a by simp
  then show ?thesis using assms(1) a client_kept
    by (auto simp: serve_ipc_def handle_client_def split: option.splits)
qed

lemma check_signals_kept:
  assumes "check_signals cfg os vm ca e = Some (b, vm', ca', e')" "I vm ca e"
  shows "I vm' ca' e'"
proof -
  have "I vm ca (snd (read_sigpipe 64 e))" using calm [OF assms(2) calm_calls(7)] .
  then show ?thesis using assms(1) reap_kept
    by (auto simp: check_signals_def bind_Some_iff case_prod_beta split: if_splits)
qed

lemma health_check_kept:
  assumes "health_check cfg os h ca lh e = Some (h', ca', lh', e')" "I vm ca e"
  shows "I vm ca' e'"
proof -
  have now: "I vm ca e2" if "I vm ca e1" "instant_now os e1 = (now, e2)" for ca e1 e2 now
    using calm [OF that(1) calm_calls(1) [of e1 os]] that(2) by simp
  from assms(1) show ?thesis
  proof (cases rule: health_check_cases)
    case (restarted n e1 e2 ca1 e3 x e4)
    have "I vm ca e2"
      using calm [OF now [OF assms(2) restarted(1)] calm_health_probe [OF restarted(3)]] .
    then show ?thesis
      using now [OF ca_start_kept [OF ca_stop_kept [OF _ restarted(4)] restarted(5)] restarted(6)] by simp
  next
    case (probed n e1 r e2)
    then show ?thesis
      using now [OF calm [OF now [OF assms(2) probed(1)] calm_health_probe [OF probed(3)]]] by simp
  next
    case (skipped n e1)
    then show ?thesis using now [OF now [OF assms(2) skipped(1)]] by simp
  next
    case (not_due n)
    then show ?thesis using now [OF assms(2)] by simp
  qed
qed

lemma signals_kept:
  assumes "instant_now os e = (now, e1)" "poll_fds os ms e1 = (ready, e2)"
    "(if c then check_signals cfg os vm ca e2 else Some (False, vm, ca, e2)) = Some (b, vm', ca', e')"
    "I vm ca e"
  shows "I vm' ca' e'"
proof -
  have "calm e e2"
    using calm_trans [OF calm_calls(1) [of e os] calm_calls(2) [of _ os ms]] assms(1,2) by (metis snd_conv)
  then have "I vm ca e2" using calm assms(4) by blast
  then show ?thesis using assms(3) check_signals_kept by (auto split: if_splits)
qed

lemma tail_kept:
  assumes "health_check cfg os h ca3 lh e5 = Some (h', ca4, lh', e6)"
    "vm_maybe_reset_crash_count os vm3 e6 = (vm4, e7)"
    "ca_maybe_reset_crash_count os ca4 e7 = (ca5, e')" "I vm3 ca3 e5"
  shows "I vm4 ca5 e'"
  using health_check_kept [OF assms(1,4)] vm_reset_kept [OF _ assms(2)] ca_reset_kept [OF _ assms(3)]
  by blast

text \<open>Once the boot is settled, a turn of the loop keeps the fact.\<close>

lemma settled_iter_kept:
  assumes "main_iter js cfg os t d e = Some (brk, d', e')" "settled (d_phase d)" "I (d_vm d) (d_ca d) e"
  shows "I (d_vm d') (d_ca d') e' \<and> d_phase d' = d_phase d"
  using assms(1)
proof (cases rule: main_iter_cases)
  case (leave now e1 ready e2 vm1 ca1)
  have "I vm1 ca1 e'" using leave(4) signals_kept [where c = True, OF leave(1,2) _ assms(3)] by simp
  then show ?thesis using leave by simp
next
  case (turn now e1 ready e2 vm1 ca1 e3 vm2 ca2 e4 ph vm3 ca3 e5 h ca4 last_health e6 vm4 e7 ca5)
  have "I vm1 ca1 e3" by (rule signals_kept [OF turn(1,2,3) assms(3)])
  then have "I vm2 ca2 e4" using turn(4) serve_ipc_kept by blast
  then have "I vm3 ca3 e5" "ph = d_phase d"
    using advance_startup_settled [OF turn(5) assms(2)] calm by auto
  then show ?thesis using tail_kept [OF turn(6-8)] turn(10) by simp
qed

end

text \<open>Facts that becoming ready and the vsock test keep too hold from the start of the daemon on.\<close>

locale boot_fact = kept_fact +
  assumes vm_ready_kept: "I vm ca e \<Longrightarrow> vm_set_state os Vm_Ready vm e = (vm', e') \<Longrightarrow> I vm' ca e'"
    and ca_ready_kept: "I vm ca e \<Longrightarrow> ca_set_state os Ca_Ready ca e = (ca', e') \<Longrightarrow> I vm ca' e'"
    and vsock_kept: "I vm ca e \<Longrightarrow> probe_vsock cfg os e = (up, e') \<Longrightarrow> I vm ca e'"
begin

lemma startup_match_kept:
  assumes "startup_match cfg os ph vm ca e = Some (ph', vm', ca', e')" "I vm ca e"
  shows "I vm' ca' e'"
  using assms(1)
proof (cases rule: startup_match_cases)
  case settled
  then show ?thesis using assms(2) by simp
next
  case (vm_ok e1 now d)
  then show ?thesis using vm_start_kept [OF assms(2) vm_ok(2)] calm calm_calls(1) [of e1 os] by simp
next
  case (vm_err err)
  then show ?thesis using vm_start_kept assms(2) by blast
next
  case (probe_yes d b now e1 e2)
  have "I vm ca e1" using calm [OF assms(2) calm_calls(1) [of e os]] probe_yes(2) by simp
  then show ?thesis using vsock_kept vm_ready_kept probe_yes(4,5,7) by blast
next
  case (probe_no d b now e1)
  have "I vm ca e1" using calm [OF assms(2) calm_calls(1) [of e os]] probe_no(2) by simp
  then show ?thesis using vsock_kept probe_no(4,6,7) by blast
next
  case (ca_ok e1 now d)
  then show ?thesis using ca_start_kept [OF assms(2) ca_ok(2)] calm calm_calls(1) [of e1 os] by simp
next
  case (ca_err err)
  then show ?thesis using ca_start_kept assms(2) by blast
next
  case (port_yes d e1)
  have "calm e e1" using calm_op [OF is_port_ready_env is_port_ready_quiet, of e cfg os] port_yes(2) by simp
  then show ?thesis using ca_ready_kept [OF calm [OF assms(2)]] port_yes(3,5) by blast
next
  case (port_no d e1 now)
  have "I vm ca e1"
    using calm [OF assms(2) calm_op [OF is_port_ready_env is_port_ready_quiet, of e cfg os]] port_no(2) by simp
  then show ?thesis using calm [OF _ calm_calls(1) [of e1 os]] port_no(3,5,6) by simp
qed (use calm [OF assms(2) calm_calls(1) [of e os]] in simp_all)

lemma iter_kept:
  assumes "main_iter js cfg os t d e = Some (brk, d', e')" "I (d_vm d) (d_ca d) e"
  shows "I (d_vm d') (d_ca d') e'"
  using assms(1)
proof (cases rule: main_iter_cases)
  case (leave now e1 ready e2 vm1 ca1)
  have "I vm1 ca1 e'" using leave(4) signals_kept [where c = True, OF leave(1,2) _ assms(2)] by simp
  then show ?thesis using leave by simp
next
  case (turn now e1 ready e2 vm1 ca1 e3 vm2 ca2 e4 ph vm3 ca3 e5 h ca4 last_health e6 vm4 e7 ca5)
  have "I vm1 ca1 e3" by (rule signals_kept [OF turn(1,2,3) assms(2)])
  then have i: "I vm2 ca2 e4" using turn(4) serve_ipc_kept by blast
  from turn(5) have "I vm3 ca3 e5"
  proof (cases rule: advance_startup_cases)
    case dead
    then show ?thesis using calm i by blast
  next
    case (moves e1)
    then show ?thesis using startup_match_kept calm i by blast
  qed
  then show ?thesis using tail_kept [OF turn(6-8)] turn(10) by simp
qed

end

section \<open>Runs\<close>

text \<open>\<open>turns\<close>: from one state of the daemon to another by whole turns of the loop.\<close>

inductive turns :: "'v json \<Rightarrow> config \<Rightarrow> 'w os \<Rightarrow> instant \<Rightarrow> daemon \<Rightarrow> 'w env \<Rightarrow> daemon \<Rightarrow> 'w env \<Rightarrow> bool"
  for js cfg os t d e where
  here: "turns js cfg os t d e d e"
| turn: "turns js cfg os t d e d1 e1 \<Longrightarrow> main_iter js cfg os t d1 e1 = Some (False, d2, e2) \<Longrightarrow>
    turns js cfg os t d e d2 e2"

lemma turns_trans: "turns js cfg os t d1 e1 d2 e2 \<Longrightarrow> turns js cfg os t d e d1 e1 \<Longrightarrow> turns js cfg os t d e d2 e2"
  by (induction rule: turns.induct) (auto intro: turns.intros)

text \<open>A loop that ends did some whole turns and then one that left.\<close>

lemma main_loop_turns:
  assumes "main_loop js cfg os t d e = Some (d', e')"
  shows "\<exists>d1 e1. turns js cfg os t d e d1 e1 \<and> main_iter js cfg os t d1 e1 = Some (True, d', e')"
proof -
  let ?Q = "\<lambda>js cfg os t d e y. \<exists>d1 e1. turns js cfg os t d e d1 e1 \<and>
    main_iter js cfg os t d1 e1 = Some (True, fst y, snd y)"
  have "?Q js cfg os t d e (d', e')"
  proof (rule main_loop.raw_induct [where P = ?Q, OF _ assms], goal_cases)
    case (1 f js cfg os t d e y)
    then obtain brk d1 e1 where i: "main_iter js cfg os t d e = Some (brk, d1, e1)"
      by (auto simp: bind_Some_iff)
    show ?case
    proof (cases brk)
      case True
      then show ?thesis using 1(2) i turns.here by fastforce
    next
      case False
      then have "f js cfg os t d1 e1 = Some y" using 1(2) i by simp
      from 1(1) [OF this] obtain d2 e2 where
        "turns js cfg os t d1 e1 d2 e2" "main_iter js cfg os t d2 e2 = Some (True, fst y, snd y)" by blast
      moreover have "turns js cfg os t d e d1 e1" using turns.turn [OF turns.here] i False by simp
      ultimately show ?thesis using turns_trans by blast
    qed
  qed
  then show ?thesis by simp
qed

text \<open>\<open>run_turns n\<close>: \<open>n\<close> turns of the loop, none of which leaves it.\<close>

fun run_turns ::
  "'v json \<Rightarrow> config \<Rightarrow> 'w os \<Rightarrow> instant \<Rightarrow> nat \<Rightarrow> daemon \<Rightarrow> 'w env \<Rightarrow> (daemon \<times> 'w env) option" where
  "run_turns js cfg os t 0 d e = Some (d, e)"
| "run_turns js cfg os t (Suc n) d e =
     (case main_iter js cfg os t d e of
        Some (False, d1, e1) \<Rightarrow> run_turns js cfg os t n d1 e1
      | _ \<Rightarrow> None)"

context kept_fact
begin

lemma settled_turns_kept:
  assumes "turns js cfg os t d e d' e'" "settled (d_phase d)" "I (d_vm d) (d_ca d) e"
  shows "I (d_vm d') (d_ca d') e' \<and> d_phase d' = d_phase d"
  using assms
proof (induction rule: turns.induct)
  case (turn d1 e1 d2 e2)
  then show ?case using settled_iter_kept [OF turn.hyps(2)] by simp
qed simp

end

context boot_fact
begin

lemma turns_kept:
  assumes "turns js cfg os t d e d' e'" "I (d_vm d) (d_ca d) e"
  shows "I (d_vm d') (d_ca d') e'"
  using assms
proof (induction rule: turns.induct)
  case (turn d1 e1 d2 e2)
  then show ?case using iter_kept [OF turn.hyps(2)] by simp
qed simp

lemma main_loop_kept:
  assumes "main_loop js cfg os t d e = Some (d', e')" "I (d_vm d) (d_ca d) e"
  shows "I (d_vm d') (d_ca d') e'"
proof -
  obtain d1 e1 where t: "turns js cfg os t d e d1 e1" and i: "main_iter js cfg os t d1 e1 = Some (True, d', e')"
    using main_loop_turns [OF assms(1)] by blast
  show ?thesis by (rule iter_kept [OF i turns_kept [OF t assms(2)]])
qed

lemma shutdown_kept:
  assumes "shutdown cfg os d e = Some (d', e')" "I (d_vm d) (d_ca d) e"
  shows "I (d_vm d') (d_ca d') e'"
proof -
  obtain ca1 e1 vm1 where c: "ca_stop cfg os (d_ca d) e = Some (ca1, e1)"
    and v: "vm_stop cfg os (d_vm d) e1 = Some (vm1, e')" and d': "d' = d\<lparr>d_vm := vm1, d_ca := ca1\<rparr>"
    using assms(1) by (auto simp: shutdown_def bind_Some_iff)
  show ?thesis using vm_stop_kept [OF ca_stop_kept [OF assms(2) c] v] by (simp add: d')
qed

end

section \<open>The managers stay well formed\<close>

interpretation wf: boot_fact cfg os "\<lambda>vm ca e. vm_inv vm \<and> ca_inv ca" for cfg os
proof (unfold_locales, goal_cases)
  case 2 then show ?case using vm_inv_ops(2) by blast
next
  case 3 then show ?case using ca_inv_ops(2) by blast
next
  case 5 then show ?case by (simp add: vm_inv_def)
next
  case 6 then show ?case by (simp add: ca_inv_def)
next
  case 7 then show ?case using vm_inv_ops(5) by blast
next
  case 8 then show ?case using ca_inv_ops(5) by blast
next
  case 9 then show ?case using vm_inv_ops(6) by blast
next
  case 10 then show ?case using ca_inv_ops(6) by blast
next
  case 11 then show ?case using vm_inv_ops(7) by blast
next
  case 12 then show ?case using ca_inv_ops(7) by blast
next
  case 13 then show ?case using vm_inv_ops(4) by blast
next
  case 14 then show ?case using ca_inv_ops(4) by blast
qed auto

lemma health_check_inv:
  assumes "health_check cfg os h ca lh e = Some (h', ca', lh', e')" "health_inv h"
  shows "health_inv h'"
proof -
  have p: "health_inv h1" if "health_probe os h e1 = (r, h1, e2)" for r h1 e1 e2
    using that health_inv_update [OF assms(2)]
    by (auto simp: health_probe_def Let_def simp del: probe_update.simps split: prod.splits sum.splits)
       (metis snd_conv)+
  from assms(1) show ?thesis
    by (cases rule: health_check_cases) (use p assms(2) in auto)
qed

lemma iter_health:
  assumes "main_iter js cfg os t d e = Some (brk, d', e')" "health_inv (d_health d)"
  shows "health_inv (d_health d')"
  using assms(1)
proof (cases rule: main_iter_cases)
  case leave
  then show ?thesis using assms(2) by simp
next
  case turn
  then show ?thesis using health_check_inv [OF turn(6) assms(2)] by simp
qed

text \<open>A whole turn makes one step of the startup machine, on managers that are well formed.\<close>

lemma iter_advances:
  assumes "main_iter js cfg os t d e = Some (False, d', e')" "vm_inv (d_vm d)" "ca_inv (d_ca d)"
  obtains vm2 ca2 e4 vm3 ca3 e5 where "clock e \<le> clock e4" "clock e4 \<le> clock e5" "clock e5 \<le> clock e'"
    "startup_match cfg os (d_phase d) vm2 ca2 e4 = Some (d_phase d', vm3, ca3, e5)"
  using assms(1)
proof (cases rule: main_iter_cases)
  case (turn now e1 ready e2 vm1 ca1 e3 vm2 ca2 e4 ph vm3 ca3 e5 h ca4 last_health e6 vm4 e7 ca5)
  have inv1: "vm_inv vm1 \<and> ca_inv ca1" using wf.signals_kept [OF turn(1-3)] assms(2,3) by blast
  have inv2: "vm_inv vm2 \<and> ca_inv ca2" using turn(4) wf.serve_ipc_kept inv1 by blast
  have "clock e \<le> clock e1" using call_op_le(18) [of e os] turn(1) by (simp add: op_le_def)
  also have "\<dots> \<le> clock e2"
    using loop_call_env_le(1) [of e1 os] turn(2) by (metis env_le_def snd_conv)
  also have "\<dots> \<le> clock e3" using turn(3) check_signals_clock by (auto split: if_splits)
  also have "\<dots> \<le> clock e4" using turn(4) by (auto dest!: serve_ipc_env simp: env_le_def)
  finally have before: "clock e \<le> clock e4" .
  have m: "startup_match cfg os (d_phase d) vm2 ca2 e4 = Some (ph, vm3, ca3, e5)"
    using inv2 turn(5) by (simp add: advance_startup_match)
  have "clock e4 \<le> clock e5" using startup_match_env [OF m] by (simp add: op_le_def)
  moreover have "clock e5 \<le> clock e6" using health_check_env [OF turn(6)] by (simp add: op_le_def)
  moreover have "clock e6 \<le> clock e7" "clock e7 \<le> clock e'"
    using vm_maybe_reset_env [of e6 os vm3] ca_maybe_reset_env [of e7 os ca4] turn(7,8)
    by (simp_all add: op_le_def)
  ultimately show thesis using that [OF before] m turn(10) by simp
qed simp

lemma iter_phase:
  assumes "main_iter js cfg os t d e = Some (False, d', e')" "vm_inv (d_vm d)" "ca_inv (d_ca d)"
  shows "phase_step (d_phase d) (d_phase d')"
  using iter_advances [OF assms] startup_match_phase_step by metis

section \<open>The start of a run\<close>

lemma main_init_cases:
  assumes "main_init sd os e = Some (cfg, l, t, d, e')"
  obtains e1 e2 e3 e4 fd e6 e7 b1 b2 where "load_with_warnings sd os e = (cfg, e1)"
    "create_dir_all os (log_dir cfg) e1 = (b1, e2)" "create_dir_all os (image_dir cfg) e2 = (b2, e3)"
    "make_pipe os e3 = (Some fd, e4)" "acquire_listener cfg os (setup_signal_handler fd e4) = Some (l, e6)"
    "instant_now os e6 = (t, e7)" "instant_now os e7 = (d_last_health d, e')"
    "d = \<lparr>d_vm = vm_new, d_ca = ca_new,
          d_health = health_new (ca_port cfg) (health_fail_threshold cfg),
          d_phase = (if auto_start cfg then VmStarting else NotStarted),
          d_last_health = d_last_health d\<rparr>"
proof -
  obtain c e1 where 1: "load_with_warnings sd os e = (c, e1)" by fastforce
  obtain b1 e2 where 2: "create_dir_all os (log_dir c) e1 = (b1, e2)" by fastforce
  obtain b2 e3 where 3: "create_dir_all os (image_dir c) e2 = (b2, e3)" by fastforce
  obtain fd' e4 where 4: "make_pipe os e3 = (fd', e4)" by fastforce
  note m = assms [unfolded main_init_def Let_def 1 2 3 4 prod.case]
  then obtain fd where 5: "fd' = Some fd" by (cases fd') auto
  then obtain l' e6 where 6: "acquire_listener c os (setup_signal_handler fd e4) = Some (l', e6)"
    using m by (auto simp: bind_Some_iff)
  obtain t' e7 where 7: "instant_now os e6 = (t', e7)" by fastforce
  obtain lh e8 where 8: "instant_now os e7 = (lh, e8)" by fastforce
  have "cfg = c" "l = l'" "t = t'" "e' = e8" "d = \<lparr>d_vm = vm_new, d_ca = ca_new,
          d_health = health_new (ca_port c) (health_fail_threshold c),
          d_phase = (if auto_start c then VmStarting else NotStarted), d_last_health = lh\<rparr>"
    using m 5 6 7 8 by auto
  then show thesis using 1 2 3 4 5 6 7 8 by (intro that) auto
qed

lemma main_init_state:
  assumes "main_init sd os e = Some (cfg, l, t, d, e')"
  shows "d_vm d = vm_new" "d_ca d = ca_new"
    "d_health d = health_new (ca_port cfg) (health_fail_threshold cfg)"
    "d_phase d = (if auto_start cfg then VmStarting else NotStarted)"
  using assms by (auto elim!: main_init_cases) (metis daemon.select_convs)+

text \<open>A run of the simulated kernel, for the witnesses.\<close>

lemma sim_main_init:
  "main_init (sim_serde []) sim_os (sim_env sim_world) =
     Some (default_config, Bound (path_join (data_dir default_config) ''teeproxyd.sock''), 0,
       \<lparr>d_vm = vm_new, d_ca = ca_new, d_health = health_new 19030 3,
        d_phase = (if auto_start default_config then VmStarting else NotStarted), d_last_health = 0\<rparr>,
       (sim_env sim_world)\<lparr>trace := [(0, EvExists config_path False),
         (0, EvCreateDirAll (log_dir default_config) True), (0, EvCreateDirAll (image_dir default_config) True),
         (0, EvRemoveFile (path_join (data_dir default_config) ''teeproxyd.sock'') True),
         (0, EvBind (path_join (data_dir default_config) ''teeproxyd.sock'') True)]\<rparr>)"
  by (simp add: main_init_def load_with_warnings_def acquire_listener_def setup_signal_handler_def
      sim_eval default_defs)

lemma sim_first_turn:
  "\<exists>cfg l t d0 e1 d e. main_init (sim_serde []) sim_os (sim_env sim_world) = Some (cfg, l, t, d0, e1) \<and>
     turns sim_json cfg sim_os t d0 e1 d e \<and> d_phase d \<noteq> d_phase d0"
proof -
  let ?e = "sim_env sim_world"
  obtain cfg l t d0 e1 where i: "main_init (sim_serde []) sim_os ?e = Some (cfg, l, t, d0, e1)"
    and c: "cfg = default_config" and d0: "d_phase d0 = VmStarting" "d_vm d0 = vm_new" "d_ca d0 = ca_new"
      "d_last_health d0 = 0" and e1: "clock e1 = 0" "sigpipe e1 = []" "sig_pipe_fd e1 = 4" "world e1 = sim_world"
    using sim_main_init by (simp add: sim_env_def default_defs)
  have "\<exists>d e. main_iter sim_json cfg sim_os t d0 e1 = Some (False, d, e) \<and> d_phase d \<noteq> d_phase d0"
    by (simp add: main_iter_def c d0 e1 poll_timeout_def poll_timeout_ms_def health_interval_def
        sig_ready_def advance_startup_def vm_is_dead_def ca_is_dead_def vm_new_def ca_new_def
        startup_match_def vm_start_def validate_images_def required_images_def health_check_def
        vm_maybe_reset_crash_count_def ca_maybe_reset_crash_count_def sim_eval default_defs)
  then show ?thesis using i turns.turn [OF turns.here] by blast
qed

end
