(* ===== verification/Ownership.thy ===== *)
theory Ownership
  imports Daemon_Run
begin

text \<open>
  Which processes the daemon starts, runs and signals. \<open>unreaped q evs\<close> counts, along a
  trace, the starts that returned pid \<open>q\<close> less the deaths of \<open>q\<close> that \<open>waitpid\<close> reported:
  as long as it is positive the pid belongs to a child of the daemon that has not been reaped,
  and the kernel cannot have given it to another process. Besides \<open>kill\<close> the daemon signals
  through \<open>pkill\<close>, which it runs as a command, by parent (\<open>pkill_children\<close>) or by name
  (\<open>pkill_crosvm\<close>).
\<close>

fun track :: "pid \<Rightarrow> event \<Rightarrow> nat \<Rightarrow> nat" where
  "track q (EvSpawn c (Inr p)) n = (if p = q then n + 1 else n)"
| "track q (EvWaitpid st) n = (if reported st = Some q then n - 1 else n)"
| "track q _ n = n"

definition track_all :: "pid \<Rightarrow> (instant \<times> event) list \<Rightarrow> nat \<Rightarrow> nat" where
  "track_all q evs = fold (\<lambda>ev. track q (snd ev)) evs"

definition unreaped :: "pid \<Rightarrow> (instant \<times> event) list \<Rightarrow> nat" where
  "unreaped q evs = track_all q evs 0"

text \<open>
  The actions on processes that are accounted for, \<open>mine\<close> being the pids that may be
  signalled: a signal by \<open>kill\<close> goes to one of them, and a command that is run is the vsock
  test, \<open>pkill\<close> for the children of one of them, or \<open>pkill\<close> for \<open>crosvm\<close> by name.
\<close>

fun owned_act :: "config \<Rightarrow> (pid \<Rightarrow> bool) \<Rightarrow> event \<Rightarrow> bool" where
  "owned_act cfg mine (EvKill q (Some s) ok) = mine q"
| "owned_act cfg mine (EvRun c ok) =
     (c = vsock_test cfg \<or> c = pkill_crosvm \<or> (\<exists>q. mine q \<and> c = pkill_children q SIGKILL))"
| "owned_act cfg mine _ = True"

definition acts_owned :: "config \<Rightarrow> (instant \<times> event) list \<Rightarrow> bool" where
  "acts_owned cfg evs \<longleftrightarrow>
     (\<forall>evs1 t ev evs2. evs = evs1 @ (t, ev) # evs2 \<longrightarrow> owned_act cfg (\<lambda>q. 0 < unreaped q evs1) ev)"

lemma acts_ownedD:
  assumes "acts_owned cfg (evs1 @ (t, ev) # evs2)"
  shows "ev = EvKill q (Some s) ok \<Longrightarrow> 0 < unreaped q evs1"
    and "ev = EvRun c ok \<Longrightarrow> c = vsock_test cfg \<or> c = pkill_crosvm \<or>
      (\<exists>q. 0 < unreaped q evs1 \<and> c = pkill_children q SIGKILL)"
proof -
  have "owned_act cfg (\<lambda>q. 0 < unreaped q evs1) ev" using assms unfolding acts_owned_def by blast
  then show "ev = EvKill q (Some s) ok \<Longrightarrow> 0 < unreaped q evs1"
    and "ev = EvRun c ok \<Longrightarrow> c = vsock_test cfg \<or> c = pkill_crosvm \<or>
      (\<exists>q. 0 < unreaped q evs1 \<and> c = pkill_children q SIGKILL)" by simp_all
qed

lemma owned_act_mono: "owned_act cfg f ev \<Longrightarrow> (\<And>q. f q \<Longrightarrow> g q) \<Longrightarrow> owned_act cfg g ev"
  by (induction cfg f ev rule: owned_act.induct) auto

text \<open>How many of the starts returned \<open>q\<close>.\<close>

definition starts_of :: "pid \<Rightarrow> (command \<times> (io_error + pid)) list \<Rightarrow> nat" where
  "starts_of q sp = length (filter (\<lambda>(c, x). x = Inr q) sp)"

lemma track_all_append [simp]: "track_all q (xs @ ys) n = track_all q ys (track_all q xs n)"
  by (simp add: track_all_def)

lemma track_all_no_reports: "reports evs = [] \<Longrightarrow> track_all q evs n = n + starts_of q (spawned evs)"
proof (induction evs arbitrary: n)
  case (Cons ev evs)
  obtain t x where [simp]: "ev = (t, x)" by fastforce
  show ?case
  proof (cases x)
    case (EvSpawn c r)
    then show ?thesis using Cons by (cases r) (auto simp: track_all_def starts_of_def)
  next
    case (EvWaitpid st)
    then show ?thesis using Cons by (auto simp: track_all_def split: option.splits)
  qed (use Cons in \<open>auto simp: track_all_def\<close>)
qed (simp add: track_all_def starts_of_def)

lemma sent_signals_member:
  "(t, EvKill q (Some s) ok) \<in> set evs \<Longrightarrow> (t, q, s) \<in> set (sent_signals evs)"
  by (induction evs rule: sent_signals.induct) auto

lemma commands_member: "(t, EvRun c ok) \<in> set evs \<Longrightarrow> c \<in> set (commands evs)"
  by (induction evs rule: commands.induct) auto

lemma owned_actI:
  assumes "(t, ev) \<in> set evs" "\<forall>(t, q, s) \<in> set (sent_signals evs). mine q"
    and "\<forall>c \<in> set (commands evs).
      c = vsock_test cfg \<or> c = pkill_crosvm \<or> (\<exists>q. mine q \<and> c = pkill_children q SIGKILL)"
  shows "owned_act cfg mine ev"
proof (cases ev)
  case (EvKill q s ok)
  then show ?thesis using assms(1,2) sent_signals_member by (cases s) fastforce+
next
  case (EvRun c ok)
  then show ?thesis using assms(1,3) commands_member by fastforce
qed simp_all

lemma acts_owned_append:
  assumes "acts_owned cfg xs" "reports ys = []"
    and ys: "\<And>t ev. (t, ev) \<in> set ys \<Longrightarrow> owned_act cfg (\<lambda>q. 0 < unreaped q xs) ev"
  shows "acts_owned cfg (xs @ ys)"
  unfolding acts_owned_def
proof (intro allI impI)
  fix evs1 t ev evs2
  assume "xs @ ys = evs1 @ (t, ev) # evs2"
  then consider us where "xs = evs1 @ us" "us @ ys = (t, ev) # evs2"
    | us where "evs1 = xs @ us" "ys = us @ (t, ev) # evs2"
    by (auto simp: append_eq_append_conv2)
  then show "owned_act cfg (\<lambda>q. 0 < unreaped q evs1) ev"
  proof cases
    case (1 us)
    show ?thesis
    proof (cases us)
      case Nil
      then show ?thesis using ys [of t ev] 1 by simp
    next
      case (Cons u us')
      then show ?thesis using assms(1) 1 by (auto simp: acts_owned_def)
    qed
  next
    case (2 us)
    then have "reports us = []" using assms(2) by simp
    then have "0 < unreaped q xs \<Longrightarrow> 0 < unreaped q evs1" for q
      using 2 by (simp add: unreaped_def track_all_no_reports)
    then show ?thesis using owned_act_mono [OF ys [of t ev]] 2 by simp
  qed
qed

section \<open>The invariant\<close>

definition holds_pid :: "pid option \<Rightarrow> pid \<Rightarrow> nat" where
  "holds_pid own q = (if own = Some q then 1 else 0)"

text \<open>
  Since \<open>e0\<close> the daemon started only its two programs, its actions on processes are
  accounted for by the unreaped children, and each manager's pid is an unreaped child (two of
  them if both hold the same one).
\<close>

definition pids_owned :: "config \<Rightarrow> 'w env \<Rightarrow> vm_manager \<Rightarrow> ca_manager \<Rightarrow> 'w env \<Rightarrow> bool" where
  "pids_owned cfg e0 vm ca e \<longleftrightarrow>
     (\<exists>evs. trace e = trace e0 @ evs \<and> acts_owned cfg evs \<and>
        fst ` set (spawned evs) \<subseteq> {vm_command cfg, ca_command cfg (vsock_cid cfg)} \<and>
        (\<forall>q. holds_pid (vm_child_pid vm) q + holds_pid (ca_child_pid ca) q \<le> unreaped q evs))"

lemma pids_owned_step:
  assumes "pids_owned cfg e0 vm ca e" "trace e' = trace e @ evs" "reports evs = []"
    and s: "\<forall>(t, q, s) \<in> set (sent_signals evs). vm_child_pid vm = Some q \<or> ca_child_pid ca = Some q"
    and c: "\<forall>c \<in> set (commands evs). c = vsock_test cfg \<or> c = pkill_crosvm \<or>
      (\<exists>q. (vm_child_pid vm = Some q \<or> ca_child_pid ca = Some q) \<and> c = pkill_children q SIGKILL)"
    and "fst ` set (spawned evs) \<subseteq> {vm_command cfg, ca_command cfg (vsock_cid cfg)}"
    and h: "\<And>q. holds_pid (vm_child_pid vm') q + holds_pid (ca_child_pid ca') q
      \<le> holds_pid (vm_child_pid vm) q + holds_pid (ca_child_pid ca) q + starts_of q (spawned evs)"
  shows "pids_owned cfg e0 vm' ca' e'"
proof -
  from assms(1) obtain evs0 where 0: "trace e = trace e0 @ evs0" "acts_owned cfg evs0"
    "fst ` set (spawned evs0) \<subseteq> {vm_command cfg, ca_command cfg (vsock_cid cfg)}"
    "\<And>q. holds_pid (vm_child_pid vm) q + holds_pid (ca_child_pid ca) q \<le> unreaped q evs0"
    by (auto simp: pids_owned_def)
  have mine: "0 < unreaped q evs0" if "vm_child_pid vm = Some q \<or> ca_child_pid ca = Some q" for q
    using 0(4) [of q] that by (auto simp: holds_pid_def split: if_splits)
  have "acts_owned cfg (evs0 @ evs)"
    using s c mine by (intro acts_owned_append [OF 0(2) assms(3)] owned_actI) fast+
  moreover have "holds_pid (vm_child_pid vm') q + holds_pid (ca_child_pid ca') q \<le> unreaped q (evs0 @ evs)" for q
    using h [of q] 0(4) [of q] by (simp add: unreaped_def track_all_no_reports [OF assms(3)])
  ultimately show ?thesis
    unfolding pids_owned_def using 0(1,3) assms(2,6) by (intro exI [of _ "evs0 @ evs"]) auto
qed

lemma pids_owned_death:
  assumes "pids_owned cfg e0 vm ca e" "waitpid_nohang os e = (st, e1)" "reported st = Some p"
    and h: "\<And>q. holds_pid (vm_child_pid vm') q + holds_pid (ca_child_pid ca') q + (if p = q then 1 else 0)
      \<le> max (if p = q then 1 else 0) (holds_pid (vm_child_pid vm) q + holds_pid (ca_child_pid ca) q)"
  shows "pids_owned cfg e0 vm' ca' e1"
proof -
  from assms(1) obtain evs where 0: "trace e = trace e0 @ evs" "acts_owned cfg evs"
    "fst ` set (spawned evs) \<subseteq> {vm_command cfg, ca_command cfg (vsock_cid cfg)}"
    "\<And>q. holds_pid (vm_child_pid vm) q + holds_pid (ca_child_pid ca) q \<le> unreaped q evs"
    by (auto simp: pids_owned_def)
  let ?ev = "(clock e1, EvWaitpid st)"
  have "acts_owned cfg (evs @ [?ev])"
    unfolding acts_owned_def
  proof (intro allI impI)
    fix evs1 t ev evs2
    assume eq: "evs @ [?ev] = evs1 @ (t, ev) # evs2"
    show "owned_act cfg (\<lambda>q. 0 < unreaped q evs1) ev"
    proof (cases evs2 rule: rev_cases)
      case (snoc evs3 x)
      then have "evs = evs1 @ (t, ev) # evs3" using eq by simp
      then show ?thesis using 0(2) by (auto simp: acts_owned_def)
    qed (use eq in auto)
  qed
  moreover have "holds_pid (vm_child_pid vm') q + holds_pid (ca_child_pid ca') q \<le> unreaped q (evs @ [?ev])" for q
    using h [of q] 0(4) [of q] assms(3)
    by (auto simp: unreaped_def track_all_def split: if_splits)
  ultimately show ?thesis
    unfolding pids_owned_def using 0(1,3) waitpid_trace [OF assms(2)]
    by (intro exI [of _ "evs @ [?ev]"]) auto
qed

interpretation pids: boot_fact cfg os "pids_owned cfg e0" for cfg os e0
proof (unfold_locales, goal_cases)
  case (1 vm ca e e')
  then obtain evs where "trace e' = trace e @ evs" "spawned evs = []" "sent_signals evs = []"
    "commands evs = []" "reports evs = []" by (auto simp: calm_def)
  then show ?case by (intro pids_owned_step [OF 1(1)]) auto
next
  case (2 vm ca e st e1 p)
  then show ?case by (intro pids_owned_death [OF 2(1-3)]) (simp add: vm_mark_dead_def holds_pid_def)
next
  case (3 vm ca e st e1 p)
  then show ?case by (intro pids_owned_death [OF 3(1-3)]) (simp add: ca_mark_dead_def holds_pid_def)
next
  case (4 vm ca e st e1 p)
  then show ?case by (intro pids_owned_death [OF 4(1-3)]) (auto simp: holds_pid_def)
next
  case (5 vm ca e)
  then show ?case by (simp add: pids_owned_def)
next
  case (6 vm ca e)
  then show ?case by (simp add: pids_owned_def)
next
  case (7 vm ca e r vm' e')
  obtain evs where evs: "trace e' = trace e @ evs" "sent_signals evs = []" "commands evs = []"
    "(\<exists>p. spawned evs = [(vm_command cfg, Inr p)] \<and> vm_child_pid vm' = Some p) \<or>
     (spawned evs = [] \<or> (\<exists>err. spawned evs = [(vm_command cfg, Inl err)])) \<and> vm_child_pid vm' = vm_child_pid vm"
    using vm_start_effect [OF 7(2)] by (cases r) (auto split: if_splits)
  moreover have "reports evs = []" using reports_op [OF vm_start_env [OF 7(2)]] evs(1) by auto
  ultimately show ?case
    by (intro pids_owned_step [OF 7(1)]) (auto simp: starts_of_def holds_pid_def)
next
  case (8 vm ca e r ca' e')
  obtain evs where evs: "trace e' = trace e @ evs" "sent_signals evs = []" "commands evs = []"
    "(\<exists>p. spawned evs = [(ca_command cfg (vsock_cid cfg), Inr p)] \<and> ca_child_pid ca' = Some p) \<or>
     (spawned evs = [] \<or> (\<exists>err. spawned evs = [(ca_command cfg (vsock_cid cfg), Inl err)]))
       \<and> ca_child_pid ca' = ca_child_pid ca"
    using ca_start_effect [OF 8(2)] by (cases r) (auto split: if_splits)
  moreover have "reports evs = []" using reports_op [OF ca_start_env [OF 8(2)]] evs(1) by auto
  ultimately show ?case
    by (intro pids_owned_step [OF 8(1)]) (auto simp: starts_of_def holds_pid_def)
next
  case (9 vm ca e vm' e')
  obtain evs where evs: "trace e' = trace e @ evs" "vm_stopped cfg (vm_child_pid vm) evs"
    using vm_stop_effect [OF 9(2)] by blast
  moreover have "vm_child_pid vm' = None" using 9(2) by (cases rule: vm_stop_cases) auto
  ultimately show ?case using reports_op [OF vm_stop_env [OF 9(2)]] vm_stopped_only [OF evs(2)]
    by (intro pids_owned_step [OF 9(1)]) (auto simp: holds_pid_def)
next
  case (10 vm ca e ca' e')
  obtain evs where evs: "trace e' = trace e @ evs" "ca_stopped cfg (ca_child_pid ca) evs"
    using ca_stop_effect [OF 10(2)] by blast
  moreover have "ca_child_pid ca' = None" using 10(2) by (cases rule: ca_stop_cases) auto
  ultimately show ?case using reports_op [OF ca_stop_env [OF 10(2)]] ca_stopped_only [OF evs(2)]
    by (intro pids_owned_step [OF 10(1)]) (auto simp: holds_pid_def)
next
  case (11 vm ca e vm' e')
  then show ?case
    by (auto simp: vm_maybe_reset_crash_count_def pids_owned_def instant_now_trace case_prod_beta
        split: option.splits if_splits)
next
  case (12 vm ca e ca' e')
  then show ?case
    by (auto simp: ca_maybe_reset_crash_count_def pids_owned_def instant_now_trace case_prod_beta
        split: option.splits if_splits)
next
  case (13 vm ca e vm' e')
  then show ?case
    by (auto simp: vm_set_state_def pids_owned_def instant_now_trace case_prod_beta Let_def)
next
  case (14 vm ca e ca' e')
  then show ?case
    by (auto simp: ca_set_state_def pids_owned_def instant_now_trace case_prod_beta Let_def)
next
  case (15 vm ca e up e')
  then obtain ok where "trace e' = trace e @ [(clock e', EvRun (vsock_test cfg) ok)]"
    using sys_facts(1) by (fastforce simp: probe_vsock_def run_command_def)
  then show ?case by (intro pids_owned_step [OF 15(1)]) (auto simp: holds_pid_def)
qed

section \<open>Processes the daemon has let go of\<close>

lemma pkill_children_inject: "pkill_children p s = pkill_children q s \<longleftrightarrow> p = q"
  using signed_word_eqI [of p q] by (auto simp: pkill_children_def pkill_def dec_int_inject)

text \<open>
  \<open>let_go cfg p e0\<close>: unless a start since \<open>e0\<close> returned the pid \<open>p\<close>, no manager holds it,
  it was not signalled since, and of the commands run since none is \<open>pkill\<close> for its children.
\<close>

definition let_go :: "config \<Rightarrow> pid \<Rightarrow> 'w env \<Rightarrow> vm_manager \<Rightarrow> ca_manager \<Rightarrow> 'w env \<Rightarrow> bool" where
  "let_go cfg p e0 vm ca e \<longleftrightarrow>
     (\<exists>evs. trace e = trace e0 @ evs \<and>
        ((\<forall>c. (c, Inr p) \<notin> set (spawned evs)) \<longrightarrow>
           vm_child_pid vm \<noteq> Some p \<and> ca_child_pid ca \<noteq> Some p \<and>
           (\<forall>u s. (u, p, s) \<notin> set (sent_signals evs)) \<and>
           (\<forall>c \<in> set (commands evs). c = vsock_test cfg \<or> c = pkill_crosvm \<or>
              (\<exists>q. q \<noteq> p \<and> c = pkill_children q SIGKILL))))"

lemma let_go_step:
  assumes "let_go cfg p e0 vm ca e" "trace e' = trace e @ evs"
    and s: "\<forall>(u, q, s) \<in> set (sent_signals evs). vm_child_pid vm = Some q \<or> ca_child_pid ca = Some q"
    and k: "\<forall>c \<in> set (commands evs). c = vsock_test cfg \<or> c = pkill_crosvm \<or>
      (\<exists>q. (vm_child_pid vm = Some q \<or> ca_child_pid ca = Some q) \<and> c = pkill_children q SIGKILL)"
    and v: "vm_child_pid vm' = Some p \<Longrightarrow> vm_child_pid vm = Some p \<or> (\<exists>c. (c, Inr p) \<in> set (spawned evs))"
    and c: "ca_child_pid ca' = Some p \<Longrightarrow> ca_child_pid ca = Some p \<or> (\<exists>c. (c, Inr p) \<in> set (spawned evs))"
  shows "let_go cfg p e0 vm' ca' e'"
proof -
  from assms(1) obtain evs0 where 0: "trace e = trace e0 @ evs0"
    "(\<forall>c. (c, Inr p) \<notin> set (spawned evs0)) \<Longrightarrow>
       vm_child_pid vm \<noteq> Some p \<and> ca_child_pid ca \<noteq> Some p \<and>
       (\<forall>u s. (u, p, s) \<notin> set (sent_signals evs0)) \<and>
       (\<forall>c \<in> set (commands evs0). c = vsock_test cfg \<or> c = pkill_crosvm \<or>
          (\<exists>q. q \<noteq> p \<and> c = pkill_children q SIGKILL))"
    unfolding let_go_def by blast
  show ?thesis
    unfolding let_go_def
  proof (intro exI [of _ "evs0 @ evs"] conjI impI)
    show "trace e' = trace e0 @ evs0 @ evs" using 0(1) assms(2) by simp
  next
    assume n: "\<forall>c. (c, Inr p) \<notin> set (spawned (evs0 @ evs))"
    then have h: "vm_child_pid vm \<noteq> Some p" "ca_child_pid ca \<noteq> Some p"
      "\<And>u s. (u, p, s) \<notin> set (sent_signals evs0)"
      "\<forall>c \<in> set (commands evs0). c = vsock_test cfg \<or> c = pkill_crosvm \<or>
         (\<exists>q. q \<noteq> p \<and> c = pkill_children q SIGKILL)" using 0(2) by auto
    show "vm_child_pid vm' \<noteq> Some p" using v h n by auto
    show "ca_child_pid ca' \<noteq> Some p" using c h n by auto
    show "\<forall>u s. (u, p, s) \<notin> set (sent_signals (evs0 @ evs))" using s h by fastforce
    show "\<forall>c \<in> set (commands (evs0 @ evs)). c = vsock_test cfg \<or> c = pkill_crosvm \<or>
       (\<exists>q. q \<noteq> p \<and> c = pkill_children q SIGKILL)" using k h by (auto 4 3)
  qed
qed

interpretation gone: boot_fact cfg os "let_go cfg p e0" for cfg os p e0
proof (unfold_locales, goal_cases)
  case (1 vm ca e e')
  then obtain evs where "trace e' = trace e @ evs" "sent_signals evs = []" "commands evs = []"
    by (auto simp: calm_def)
  then show ?case by (intro let_go_step [OF 1(1)]) auto
next
  case (2 vm ca e st e1 q)
  then show ?case using waitpid_trace [OF 2(2)]
    by (intro let_go_step [OF 2(1)]) (auto simp: vm_mark_dead_def)
next
  case (3 vm ca e st e1 q)
  then show ?case using waitpid_trace [OF 3(2)]
    by (intro let_go_step [OF 3(1)]) (auto simp: ca_mark_dead_def)
next
  case (4 vm ca e st e1 q)
  then show ?case using waitpid_trace [OF 4(2)] by (intro let_go_step [OF 4(1)]) auto
next
  case (5 vm ca e)
  then show ?case by (simp add: let_go_def)
next
  case (6 vm ca e)
  then show ?case by (simp add: let_go_def)
next
  case (7 vm ca e r vm' e')
  obtain evs where "trace e' = trace e @ evs" "sent_signals evs = []" "commands evs = []"
    "(\<exists>q. spawned evs = [(vm_command cfg, Inr q)] \<and> vm_child_pid vm' = Some q) \<or>
     vm_child_pid vm' = vm_child_pid vm"
    using vm_start_effect [OF 7(2)] by (cases r) (auto split: if_splits)
  then show ?case by (intro let_go_step [OF 7(1)]) auto
next
  case (8 vm ca e r ca' e')
  obtain evs where "trace e' = trace e @ evs" "sent_signals evs = []" "commands evs = []"
    "(\<exists>q. spawned evs = [(ca_command cfg (vsock_cid cfg), Inr q)] \<and> ca_child_pid ca' = Some q) \<or>
     ca_child_pid ca' = ca_child_pid ca"
    using ca_start_effect [OF 8(2)] by (cases r) (auto split: if_splits)
  then show ?case by (intro let_go_step [OF 8(1)]) auto
next
  case (9 vm ca e vm' e')
  obtain evs where evs: "trace e' = trace e @ evs" "vm_stopped cfg (vm_child_pid vm) evs"
    using vm_stop_effect [OF 9(2)] by blast
  moreover have "vm_child_pid vm' = None" using 9(2) by (cases rule: vm_stop_cases) auto
  ultimately show ?case using vm_stopped_only [OF evs(2)] by (intro let_go_step [OF 9(1)]) auto
next
  case (10 vm ca e ca' e')
  obtain evs where evs: "trace e' = trace e @ evs" "ca_stopped cfg (ca_child_pid ca) evs"
    using ca_stop_effect [OF 10(2)] by blast
  moreover have "ca_child_pid ca' = None" using 10(2) by (cases rule: ca_stop_cases) auto
  ultimately show ?case using ca_stopped_only [OF evs(2)] by (intro let_go_step [OF 10(1)]) auto
next
  case (11 vm ca e vm' e')
  then show ?case
    by (auto simp: vm_maybe_reset_crash_count_def let_go_def instant_now_trace case_prod_beta
        split: option.splits if_splits)
next
  case (12 vm ca e ca' e')
  then show ?case
    by (auto simp: ca_maybe_reset_crash_count_def let_go_def instant_now_trace case_prod_beta
        split: option.splits if_splits)
next
  case (13 vm ca e vm' e')
  then show ?case
    by (auto simp: vm_set_state_def let_go_def instant_now_trace case_prod_beta Let_def)
next
  case (14 vm ca e ca' e')
  then show ?case
    by (auto simp: ca_set_state_def let_go_def instant_now_trace case_prod_beta Let_def)
next
  case (15 vm ca e up e')
  then obtain ok where "trace e' = trace e @ [(clock e', EvRun (vsock_test cfg) ok)]"
    using sys_facts(1) by (fastforce simp: probe_vsock_def run_command_def)
  then show ?case by (intro let_go_step [OF 15(1)]) auto
qed

section \<open>Properties\<close>

text \<open>
  C1. Which processes the daemon acts on. From its initialisation on, through any number of
  turns of the main loop and through the shutdown, the only programs it starts to stay are the
  VM and the CA with the configured command lines. Every signal it sends by \<open>kill\<close> goes to a
  pid that some earlier start returned and that \<open>waitpid\<close> has not reported dead since. The
  only commands it runs are the vsock test, \<open>pkill -P\<close> for the children of such a pid, and
  \<open>pkill -9 -f crosvm\<close>; the last is the one way in which it may signal a process that is
  not its own. Nothing is assumed of the kernel, the clients or the JSON library.
\<close>

theorem acts_only_on_unreaped_children:
  assumes i: "main_init sd os e0 = Some (cfg, l, t, d0, e1)"
    and "turns js cfg os t d0 e1 d e \<or>
      main_loop js cfg os t d0 e1 = Some (d2, e2) \<and> shutdown cfg os d2 e2 = Some (d, e)"
  shows "\<exists>evs. trace e = trace e1 @ evs \<and>
    fst ` set (spawned evs) \<subseteq> {vm_command cfg, ca_command cfg (vsock_cid cfg)} \<and>
    (\<forall>evs1 u ev evs2. evs = evs1 @ (u, ev) # evs2 \<longrightarrow>
       (\<forall>q s ok. ev = EvKill q (Some s) ok \<longrightarrow> 0 < unreaped q evs1) \<and>
       (\<forall>c ok. ev = EvRun c ok \<longrightarrow> c = vsock_test cfg \<or> c = pkill_crosvm \<or>
          (\<exists>q. 0 < unreaped q evs1 \<and> c = pkill_children q SIGKILL)))"
proof -
  have "pids_owned cfg e1 (d_vm d0) (d_ca d0) e1"
    by (simp add: pids_owned_def main_init_state [OF i] vm_new_def ca_new_def holds_pid_def
        acts_owned_def)
  note start = this
  have "pids_owned cfg e1 (d_vm d) (d_ca d) e"
    using assms(2)
  proof (elim disjE conjE)
    assume "turns js cfg os t d0 e1 d e"
    from pids.turns_kept [OF this start] show ?thesis .
  next
    assume m: "main_loop js cfg os t d0 e1 = Some (d2, e2)" and s: "shutdown cfg os d2 e2 = Some (d, e)"
    from pids.shutdown_kept [OF s pids.main_loop_kept [OF m start]] show ?thesis .
  qed
  then obtain evs where evs: "trace e = trace e1 @ evs" "acts_owned cfg evs"
    "fst ` set (spawned evs) \<subseteq> {vm_command cfg, ca_command cfg (vsock_cid cfg)}"
    unfolding pids_owned_def by blast
  show ?thesis
  proof (intro exI [of _ evs] conjI allI impI evs(1,3))
    fix evs1 u ev evs2 q s ok
    assume "evs = evs1 @ (u, ev) # evs2" "ev = EvKill q (Some s) ok"
    then show "0 < unreaped q evs1" using acts_ownedD(1) evs(2) by metis
  next
    fix evs1 u ev evs2 c ok
    assume "evs = evs1 @ (u, ev) # evs2" "ev = EvRun c ok"
    then show "c = vsock_test cfg \<or> c = pkill_crosvm \<or> (\<exists>q. 0 < unreaped q evs1 \<and> c = pkill_children q SIGKILL)"
      using acts_ownedD(2) evs(2) by metis
  qed
qed

theorem acts_only_on_unreaped_children_witness:
  "\<exists>cfg l t d0 e1 d e evs. main_init (sim_serde []) sim_os (sim_env sim_world) = Some (cfg, l, t, d0, e1) \<and>
     turns sim_json cfg sim_os t d0 e1 d e \<and> d_phase d \<noteq> d_phase d0 \<and> trace e = trace e1 @ evs \<and>
     fst ` set (spawned evs) \<subseteq> {vm_command cfg, ca_command cfg (vsock_cid cfg)}"
proof -
  obtain cfg l t d0 e1 d e where
    i: "main_init (sim_serde []) sim_os (sim_env sim_world) = Some (cfg, l, t, d0, e1)" and
    t: "turns sim_json cfg sim_os t d0 e1 d e" "d_phase d \<noteq> d_phase d0"
    using sim_first_turn by blast
  obtain evs where "trace e = trace e1 @ evs"
    "fst ` set (spawned evs) \<subseteq> {vm_command cfg, ca_command cfg (vsock_cid cfg)}"
    using acts_only_on_unreaped_children [OF i disjI1 [OF t(1)]] by (elim exE conjE) (rule that)
  with i t show ?thesis by (intro exI conjI)
qed

text \<open>
  C11. A process no manager holds is not signalled again. From such a state on, through any
  number of turns and through the shutdown, no signal goes to its pid and no \<open>pkill -P\<close> is
  run for it, unless the kernel gives the pid out again; and no manager holds it again. So
  the pid of a stopped or reaped child is safe. Only \<open>pkill -9 -f crosvm\<close>, which looks at
  command lines and not at pids, may still hit the process if it lives on.
\<close>

theorem disowned_never_signalled:
  assumes "vm_child_pid (d_vm d) \<noteq> Some p" "ca_child_pid (d_ca d) \<noteq> Some p"
    and "turns js cfg os t d e d' e' \<or>
      main_loop js cfg os t d e = Some (d2, e2) \<and> shutdown cfg os d2 e2 = Some (d', e')"
  shows "\<exists>evs. trace e' = trace e @ evs \<and>
    ((\<exists>c. (c, Inr p) \<in> set (spawned evs)) \<or>
     (\<forall>u s. (u, p, s) \<notin> set (sent_signals evs)) \<and>
     (\<forall>c \<in> set (commands evs). c = vsock_test cfg \<or> c = pkill_crosvm \<or>
        (\<exists>q. q \<noteq> p \<and> c = pkill_children q SIGKILL)) \<and>
     pkill_children p SIGKILL \<notin> set (commands evs) \<and>
     vm_child_pid (d_vm d') \<noteq> Some p \<and> ca_child_pid (d_ca d') \<noteq> Some p)"
proof -
  have start: "let_go cfg p e (d_vm d) (d_ca d) e" using assms(1,2) by (simp add: let_go_def)
  have "let_go cfg p e (d_vm d') (d_ca d') e'"
    using assms(3)
  proof (elim disjE conjE)
    assume "turns js cfg os t d e d' e'"
    from gone.turns_kept [OF this start] show ?thesis .
  next
    assume m: "main_loop js cfg os t d e = Some (d2, e2)" and s: "shutdown cfg os d2 e2 = Some (d', e')"
    from gone.shutdown_kept [OF s gone.main_loop_kept [OF m start]] show ?thesis .
  qed
  then obtain evs where evs: "trace e' = trace e @ evs"
    "(\<forall>c. (c, Inr p) \<notin> set (spawned evs)) \<Longrightarrow>
       vm_child_pid (d_vm d') \<noteq> Some p \<and> ca_child_pid (d_ca d') \<noteq> Some p \<and>
       (\<forall>u s. (u, p, s) \<notin> set (sent_signals evs)) \<and>
       (\<forall>c \<in> set (commands evs). c = vsock_test cfg \<or> c = pkill_crosvm \<or>
          (\<exists>q. q \<noteq> p \<and> c = pkill_children q SIGKILL))"
    unfolding let_go_def by blast
  have "pkill_children p SIGKILL \<noteq> vsock_test cfg" "pkill_children p SIGKILL \<noteq> pkill_crosvm"
    by (simp_all add: pkill_children_def pkill_crosvm_def pkill_def vsock_test_def)
  note other = this
  show ?thesis
  proof (cases "\<exists>c. (c, Inr p) \<in> set (spawned evs)")
    case True
    then show ?thesis by (intro exI [of _ evs] conjI evs(1) disjI1)
  next
    case False
    then have h: "vm_child_pid (d_vm d') \<noteq> Some p \<and> ca_child_pid (d_ca d') \<noteq> Some p \<and>
       (\<forall>u s. (u, p, s) \<notin> set (sent_signals evs)) \<and>
       (\<forall>c \<in> set (commands evs). c = vsock_test cfg \<or> c = pkill_crosvm \<or>
          (\<exists>q. q \<noteq> p \<and> c = pkill_children q SIGKILL))" by (intro evs(2)) simp
    have "pkill_children p SIGKILL \<notin> set (commands evs)"
      using h other pkill_children_inject [of p SIGKILL] by metis
    with h show ?thesis by (intro exI [of _ evs] conjI evs(1) disjI2) simp_all
  qed
qed

theorem disowned_never_signalled_witness:
  "\<exists>cfg l t d0 e1 d e evs. main_init (sim_serde []) sim_os (sim_env sim_world) = Some (cfg, l, t, d0, e1) \<and>
     turns sim_json cfg sim_os t d0 e1 d e \<and> d_phase d \<noteq> d_phase d0 \<and> trace e = trace e1 @ evs \<and>
     ((\<exists>c. (c, Inr 7) \<in> set (spawned evs)) \<or> (\<forall>u s. (u, 7, s) \<notin> set (sent_signals evs)))"
proof -
  obtain cfg l t d0 e1 d e where
    i: "main_init (sim_serde []) sim_os (sim_env sim_world) = Some (cfg, l, t, d0, e1)" and
    t: "turns sim_json cfg sim_os t d0 e1 d e" "d_phase d \<noteq> d_phase d0"
    using sim_first_turn by blast
  have n: "vm_child_pid (d_vm d0) \<noteq> Some 7" "ca_child_pid (d_ca d0) \<noteq> Some 7"
    using main_init_state [OF i] by (simp_all add: vm_new_def ca_new_def)
  obtain evs where "trace e = trace e1 @ evs"
    "(\<exists>c. (c, Inr 7) \<in> set (spawned evs)) \<or> (\<forall>u s. (u, 7, s) \<notin> set (sent_signals evs))"
    using disowned_never_signalled [OF n disjI1 [OF t(1)]] by (elim exE conjE) (erule that, argo)
  with i t show ?thesis by (intro exI conjI)
qed

end
