(* ===== verification/Crash_Count.thy ===== *)
theory Crash_Count
  imports Daemon_Run
begin

text \<open>
  What happens to the CA's crash counter once the boot is settled. The counter is reset only
  while \<open>ready_since\<close> is set, \<open>ready_since\<close> is set only by \<open>set_state(Ready)\<close>, and
  only the startup machine calls that, in its phase \<open>WaitingCaPort\<close>.
\<close>

text \<open>
  \<open>not_ready c0 e0\<close>: the CA is not ready, and its counter stands between \<open>c0\<close> and \<open>c0\<close>
  plus the deaths reported since \<open>e0\<close>, unless that many deaths wrap a 32-bit counter.
\<close>

definition not_ready :: "nat \<Rightarrow> 'w env \<Rightarrow> vm_manager \<Rightarrow> ca_manager \<Rightarrow> 'w env \<Rightarrow> bool" where
  "not_ready c0 e0 vm ca e \<longleftrightarrow>
     ca_ready_since ca = None \<and> ca_state ca \<noteq> Ca_Ready \<and>
     (\<exists>evs. trace e = trace e0 @ evs \<and> unat (ca_crash_count ca) \<le> c0 + length (reports evs) \<and>
        (c0 \<le> unat (ca_crash_count ca) \<or> 2 ^ 32 \<le> c0 + length (reports evs)))"

lemma not_ready_step:
  assumes "not_ready c0 e0 vm ca e" "trace e' = trace e @ evs" "reports evs = []"
    and "ca_ready_since ca' = None" "ca_state ca' \<noteq> Ca_Ready" "ca_crash_count ca' = ca_crash_count ca"
  shows "not_ready c0 e0 vm' ca' e'"
  using assms by (auto simp: not_ready_def)

lemma not_ready_op:
  assumes "not_ready c0 e0 vm ca e" "op_le e e'"
    and "ca_ready_since ca' = None" "ca_state ca' \<noteq> Ca_Ready" "ca_crash_count ca' = ca_crash_count ca"
  shows "not_ready c0 e0 vm' ca' e'"
  using reports_op [OF assms(2)] not_ready_step [OF assms(1) _ _ assms(3-5)] by blast

lemma not_ready_death:
  assumes "not_ready c0 e0 vm ca e" "waitpid_nohang os e = (st, e1)" "reported st = Some p"
  shows "not_ready c0 e0 vm' ca e1" and "not_ready c0 e0 vm' (ca_mark_dead ca) e1"
proof -
  from assms(1) obtain evs where evs: "trace e = trace e0 @ evs"
    "unat (ca_crash_count ca) \<le> c0 + length (reports evs)"
    "c0 \<le> unat (ca_crash_count ca) \<or> 2 ^ 32 \<le> c0 + length (reports evs)"
    and r: "ca_ready_since ca = None" "ca_state ca \<noteq> Ca_Ready"
    by (auto simp: not_ready_def)
  let ?evs = "evs @ [(clock e1, EvWaitpid st)]"
  have t: "trace e1 = trace e0 @ ?evs" using waitpid_trace [OF assms(2)] evs(1) by simp
  have l: "length (reports ?evs) = Suc (length (reports evs))" using assms(3) by simp
  show "not_ready c0 e0 vm' ca e1"
    unfolding not_ready_def using evs(2,3) r t l by (intro conjI exI [of _ ?evs]) auto
  have "unat (ca_crash_count ca + 1) \<le> c0 + length (reports ?evs) \<and>
      (c0 \<le> unat (ca_crash_count ca + 1) \<or> 2 ^ 32 \<le> c0 + length (reports ?evs))"
    using evs(2,3) l by (auto simp: unat_Suc32)
  then show "not_ready c0 e0 vm' (ca_mark_dead ca) e1"
    unfolding not_ready_def using t by (intro conjI exI [of _ ?evs]) (auto simp: ca_mark_dead_def)
qed

interpretation crashes: kept_fact cfg os "not_ready c0 e0" for cfg os c0 e0
proof (unfold_locales, goal_cases)
  case (1 vm ca e e')
  then obtain evs where "trace e' = trace e @ evs" "reports evs = []" by (auto simp: calm_def)
  then show ?case using 1(1) by (intro not_ready_step [OF 1(1)]) (auto simp: not_ready_def)
next
  case (2 vm ca e st e1 p)
  then show ?case using not_ready_death(1) by blast
next
  case (3 vm ca e st e1 p)
  then show ?case using not_ready_death(2) by blast
next
  case (4 vm ca e st e1 p)
  then show ?case using not_ready_death(1) by blast
next
  case (5 vm ca e)
  then show ?case by (simp add: not_ready_def)
next
  case (6 vm ca e)
  then show ?case by (simp add: not_ready_def)
next
  case (7 vm ca e r vm' e')
  then show ?case
    by (intro not_ready_op [OF 7(1) vm_start_env [OF 7(2)]]) (auto simp: not_ready_def)
next
  case (8 vm ca e r ca' e')
  have "ca_state ca' \<noteq> Ca_Ready" using 8 by (auto simp: not_ready_def elim!: ca_start_cases)
  then show ?case
    using 8(1) cas.since_start [OF 8(2)] cas.crash_start [OF 8(2)]
    by (intro not_ready_op [OF 8(1) ca_start_env [OF 8(2)]]) (auto simp: not_ready_def)
next
  case (9 vm ca e vm' e')
  then show ?case
    by (intro not_ready_op [OF 9(1) vm_stop_env [OF 9(2)]]) (auto simp: not_ready_def)
next
  case (10 vm ca e ca' e')
  then show ?case
    by (intro not_ready_op [OF 10(1) ca_stop_env [OF 10(2)]]) (auto elim!: ca_stop_cases)
next
  case (11 vm ca e vm' e')
  then show ?case
    using vm_maybe_reset_env [of e os vm]
    by (intro not_ready_op [OF 11(1)]) (auto simp: not_ready_def)
next
  case (12 vm ca e ca' e')
  then have "ca' = ca \<and> e' = e" by (auto simp: not_ready_def ca_maybe_reset_crash_count_def)
  then show ?case using 12(1) by simp
qed

text \<open>
  C10. After the boot, crashes of the CA add up for ever. Take a state whose startup phase is
  settled and in which the CA is not ready and has no ready time, as after a crash, a
  restart by the health check or a stop; not after a start over a ready CA, which keeps
  the old ready time (\<open>ca_stale_ready_resets\<close> in \<open>Manager_Status\<close>). However many turns of
  the loop follow, the CA never becomes ready again, however long it runs, and its crash
  counter never falls below its present value (unless the deaths reported meanwhile wrap a
  32-bit counter): the reset after 60 s of stable operation does not happen.
\<close>

theorem crash_count_never_reset:
  assumes "turns js cfg os t d e d' e'" and "settled (d_phase d)"
    and "ca_ready_since (d_ca d) = None" and "ca_state (d_ca d) \<noteq> Ca_Ready"
  shows "d_phase d' = d_phase d \<and> ca_state (d_ca d') \<noteq> Ca_Ready \<and>
    (\<exists>evs. trace e' = trace e @ evs \<and>
       (unat (ca_crash_count (d_ca d)) \<le> unat (ca_crash_count (d_ca d')) \<or>
        2 ^ 32 \<le> unat (ca_crash_count (d_ca d)) + length (reports evs)))"
proof -
  have "not_ready (unat (ca_crash_count (d_ca d))) e (d_vm d) (d_ca d) e"
    using assms(3,4) by (simp add: not_ready_def)
  from crashes.settled_turns_kept [OF assms(1,2) this] show ?thesis by (auto simp: not_ready_def)
qed

theorem crash_count_never_reset_witness:
  "\<exists>d' e'. turns sim_json default_config sim_os 0
       \<lparr>d_vm = vm_new, d_ca = ca_new\<lparr>ca_crash_count := 3\<rparr>, d_health = health_new 19030 3,
        d_phase = Complete, d_last_health = 0\<rparr> (sim_env sim_world) d' e' \<and>
     0 < clock e' \<and> ca_state (d_ca d') \<noteq> Ca_Ready"
proof -
  let ?d = "\<lparr>d_vm = vm_new, d_ca = ca_new\<lparr>ca_crash_count := 3\<rparr>, d_health = health_new 19030 3,
        d_phase = Complete, d_last_health = 0\<rparr>"
  have "\<exists>d' e'. main_iter sim_json default_config sim_os 0 ?d (sim_env sim_world) = Some (False, d', e') \<and> 0 < clock e'"
    by (simp add: main_iter_def poll_timeout_def poll_timeout_ms_def health_interval_def
        sig_ready_def advance_startup_def vm_is_dead_def ca_is_dead_def vm_new_def ca_new_def
        startup_match_def health_check_def vm_maybe_reset_crash_count_def
        ca_maybe_reset_crash_count_def sim_eval default_defs)
  then obtain d' e' where t: "turns sim_json default_config sim_os 0 ?d (sim_env sim_world) d' e'" "0 < clock e'"
    using turns.turn [OF turns.here] by blast
  show ?thesis using crash_count_never_reset [OF t(1)] t by (auto simp: ca_new_def)
qed

end
