(* ===== verification/Manager_Status.thy ===== *)
theory Manager_Status
  imports Daemon_Run
begin

text \<open>
  What the fields of the two managers say together, in every state the daemon reaches: an
  instance of \<open>boot_fact\<close> that holds from initialisation on.
\<close>

section \<open>Well-formed managers\<close>

text \<open>
  \<open>since_ok\<close>: a ready time lies in the past. \<open>vm_typed\<close> and \<open>ca_typed\<close> tie each state to
  the other fields. A manager that is starting or ready may lack a child: \<open>start\<close> can fail
  after it has set the state, and the startup machine sets ready without looking at the child.
\<close>

definition since_ok :: "instant option \<Rightarrow> instant \<Rightarrow> bool" where
  "since_ok since now \<longleftrightarrow> (case since of None \<Rightarrow> True | Some s \<Rightarrow> s \<le> now)"

definition vm_typed :: "vm_manager \<Rightarrow> instant \<Rightarrow> bool" where
  "vm_typed m now \<longleftrightarrow> since_ok (vm_ready_since m) now \<and>
     (case vm_state m of
        Vm_Idle \<Rightarrow> vm_child_pid m = None \<and> vm_ready_since m = None
      | Vm_Starting \<Rightarrow> True
      | Vm_Booting \<Rightarrow> vm_child_pid m \<noteq> None
      | Vm_Ready \<Rightarrow> vm_ready_since m \<noteq> None
      | Vm_Stopping \<Rightarrow> False
      | Vm_Error \<Rightarrow> vm_child_pid m = None \<and> vm_ready_since m = None \<and> 5 \<le> vm_crash_count m)"

definition ca_typed :: "ca_manager \<Rightarrow> instant \<Rightarrow> bool" where
  "ca_typed m now \<longleftrightarrow> since_ok (ca_ready_since m) now \<and>
     (case ca_state m of
        Ca_Idle \<Rightarrow> ca_child_pid m = None \<and> ca_ready_since m = None
      | Ca_Starting \<Rightarrow> True
      | Ca_Running \<Rightarrow> ca_child_pid m \<noteq> None
      | Ca_Ready \<Rightarrow> ca_ready_since m \<noteq> None
      | Ca_Stopping \<Rightarrow> False
      | Ca_Error \<Rightarrow> ca_child_pid m = None \<and> ca_ready_since m = None \<and> 5 \<le> ca_crash_count m)"

lemma since_ok_mono: "since_ok s t \<Longrightarrow> t \<le> u \<Longrightarrow> since_ok s u"
  by (auto simp: since_ok_def split: option.splits)

lemma since_ok_simps [simp]: "since_ok None t" "since_ok (Some s) t \<longleftrightarrow> s \<le> t"
  by (simp_all add: since_ok_def)

lemma vm_typed_mono: "vm_typed m t \<Longrightarrow> t \<le> u \<Longrightarrow> vm_typed m u"
  by (auto simp: vm_typed_def intro: since_ok_mono)

lemma ca_typed_mono: "ca_typed m t \<Longrightarrow> t \<le> u \<Longrightarrow> ca_typed m u"
  by (auto simp: ca_typed_def intro: since_ok_mono)

lemma op_clock: "op_le e e' \<Longrightarrow> clock e \<le> clock e'"
  by (simp add: op_le_def)

lemma wait_clock: "waitpid_nohang os e = (st, e1) \<Longrightarrow> clock e \<le> clock e1"
  using loop_call_env_le(4) [of e os] by (simp add: env_le_def)

section \<open>Each operation keeps them\<close>

lemma vm_typed_ops:
  "vm_typed vm_new now"
  "vm_typed (vm_mark_dead m) now"
  "vm_start cfg os m e = (r, m', e') \<Longrightarrow> vm_typed m (clock e) \<Longrightarrow> vm_typed m' (clock e')"
  "vm_stop cfg os m e = Some (m', e') \<Longrightarrow> vm_typed m' now"
  "vm_set_state os Vm_Ready m e = (m', e') \<Longrightarrow> vm_typed m' (clock e')"
proof -
  show "vm_typed m' (clock e')" if s: "vm_start cfg os m e = (r, m', e')" and t: "vm_typed m (clock e)"
  proof -
    have "vm_typed m (clock e')" using vm_typed_mono [OF t op_clock [OF vm_start_env [OF s]]] .
    with s show ?thesis by (cases rule: vm_start_cases) (auto simp: vm_typed_def)
  qed
qed (auto simp: vm_typed_def vm_new_def vm_mark_dead_def vm_set_state_def instant_now_def Let_def
    elim!: vm_stop_cases)

lemma ca_typed_ops:
  "ca_typed ca_new now"
  "ca_typed (ca_mark_dead m) now"
  "ca_start cfg cid os m e = (r, m', e') \<Longrightarrow> ca_typed m (clock e) \<Longrightarrow> ca_typed m' (clock e')"
  "ca_stop cfg os m e = Some (m', e') \<Longrightarrow> ca_typed m' now"
  "ca_set_state os Ca_Ready m e = (m', e') \<Longrightarrow> ca_typed m' (clock e')"
proof -
  show "ca_typed m' (clock e')" if s: "ca_start cfg cid os m e = (r, m', e')" and t: "ca_typed m (clock e)"
  proof -
    have "ca_typed m (clock e')" using ca_typed_mono [OF t op_clock [OF ca_start_env [OF s]]] .
    with s show ?thesis by (cases rule: ca_start_cases) (auto simp: ca_typed_def)
  qed
qed (auto simp: ca_typed_def ca_new_def ca_mark_dead_def ca_set_state_def instant_now_def Let_def
    elim!: ca_stop_cases)

text \<open>The reset of a crash counter happens only with a ready time, so not in error.\<close>

lemma typed_resets:
  "vm_maybe_reset_crash_count os vm e = (vm', e') \<Longrightarrow> vm_typed vm (clock e) \<Longrightarrow> vm_typed vm' (clock e')"
  "ca_maybe_reset_crash_count os ca e = (ca', e') \<Longrightarrow> ca_typed ca (clock e) \<Longrightarrow> ca_typed ca' (clock e')"
proof -
  show "vm_typed vm' (clock e')"
    if r: "vm_maybe_reset_crash_count os vm e = (vm', e')" and t: "vm_typed vm (clock e)"
  proof -
    have "clock e \<le> clock e'" using op_clock [OF vm_maybe_reset_env [of e os vm]] r by simp
    then have "vm_typed vm (clock e')" by (rule vm_typed_mono [OF t])
    then show ?thesis using r
      by (auto simp: vm_maybe_reset_crash_count_def vm_typed_def case_prod_beta
          split: option.splits if_splits vm_state.splits)
  qed
  show "ca_typed ca' (clock e')"
    if r: "ca_maybe_reset_crash_count os ca e = (ca', e')" and t: "ca_typed ca (clock e)"
  proof -
    have "clock e \<le> clock e'" using op_clock [OF ca_maybe_reset_env [of e os ca]] r by simp
    then have "ca_typed ca (clock e')" by (rule ca_typed_mono [OF t])
    then show ?thesis using r
      by (auto simp: ca_maybe_reset_crash_count_def ca_typed_def case_prod_beta
          split: option.splits if_splits ca_state.splits)
  qed
qed

interpretation typed: boot_fact cfg os "\<lambda>vm ca e. vm_typed vm (clock e) \<and> ca_typed ca (clock e)" for cfg os
proof (unfold_locales, goal_cases)
  case (1 vm ca e e')
  then show ?case using vm_typed_mono ca_typed_mono by (auto simp: calm_def)
next
  case (2 vm ca e st e1 p)
  then show ?case using vm_typed_ops(2) ca_typed_mono [OF _ wait_clock] by blast
next
  case (3 vm ca e st e1 p)
  then show ?case using ca_typed_ops(2) vm_typed_mono [OF _ wait_clock] by blast
next
  case (4 vm ca e st e1 p)
  then show ?case using vm_typed_mono [OF _ wait_clock] ca_typed_mono [OF _ wait_clock] by blast
next
  case 5 then show ?case by (simp add: vm_typed_def)
next
  case 6 then show ?case by (simp add: ca_typed_def)
next
  case (7 vm ca e r vm' e')
  then show ?case using vm_typed_ops(3) ca_typed_mono [OF _ op_clock [OF vm_start_env]] by blast
next
  case (8 vm ca e r ca' e')
  then show ?case using ca_typed_ops(3) vm_typed_mono [OF _ op_clock [OF ca_start_env]] by blast
next
  case (9 vm ca e vm' e')
  then show ?case using vm_typed_ops(4) ca_typed_mono [OF _ op_clock [OF vm_stop_env]] by blast
next
  case (10 vm ca e ca' e')
  then show ?case using ca_typed_ops(4) vm_typed_mono [OF _ op_clock [OF ca_stop_env]] by blast
next
  case (11 vm ca e vm' e')
  then have "clock e \<le> clock e'" using op_clock [OF vm_maybe_reset_env [of e os vm]] by simp
  then show ?case using 11 typed_resets(1) ca_typed_mono by blast
next
  case (12 vm ca e ca' e')
  then have "clock e \<le> clock e'" using op_clock [OF ca_maybe_reset_env [of e os ca]] by simp
  then show ?case using 12 typed_resets(2) vm_typed_mono by blast
next
  case (13 vm ca e vm' e')
  then have "clock e \<le> clock e'" using op_clock [OF vm_set_state_env [of e os Vm_Ready vm]] by simp
  then show ?case using 13 vm_typed_ops(5) ca_typed_mono by blast
next
  case (14 vm ca e ca' e')
  then have "clock e \<le> clock e'" using op_clock [OF ca_set_state_env [of e os Ca_Ready ca]] by simp
  then show ?case using 14 ca_typed_ops(5) vm_typed_mono by blast
next
  case (15 vm ca e up e')
  then have "clock e \<le> clock e'"
    using op_clock [OF call_op_le(3) [of e os "vsock_test cfg"]] by (simp add: probe_vsock_def)
  then show ?case using 15 vm_typed_mono ca_typed_mono by blast
qed

section \<open>Property\<close>

text \<open>
  C14. The fields of the two managers, which status requests report, are consistent in every
  state the daemon reaches between two turns. Neither manager is stopping. One that is idle or in error has
  no process and no ready time; one in error has counted five crashes; a booting VM and a
  running CA have a process; one that is ready has a ready time, which is not in the future.
\<close>

theorem managers_well_typed:
  assumes "main_init sd os e0 = Some (cfg, l, t, d0, e1)" and "turns js cfg os t d0 e1 d e"
  shows "vm_typed (d_vm d) (clock e) \<and> ca_typed (d_ca d) (clock e)"
proof -
  have "vm_typed (d_vm d0) (clock e1) \<and> ca_typed (d_ca d0) (clock e1)"
    using main_init_state [OF assms(1)] vm_typed_ops(1) ca_typed_ops(1) by simp
  then show ?thesis by (rule typed.turns_kept [OF assms(2)])
qed

theorem managers_well_typed_witness:
  "\<exists>cfg l t d0 e1 d e. main_init (sim_serde []) sim_os (sim_env sim_world) = Some (cfg, l, t, d0, e1) \<and>
     turns sim_json cfg sim_os t d0 e1 d e \<and> d_phase d \<noteq> d_phase d0 \<and> vm_typed (d_vm d) (clock e)"
proof -
  obtain cfg l t d0 e1 d e where
    i: "main_init (sim_serde []) sim_os (sim_env sim_world) = Some (cfg, l, t, d0, e1)"
    and t: "turns sim_json cfg sim_os t d0 e1 d e" "d_phase d \<noteq> d_phase d0"
    using sim_first_turn by blast
  then show ?thesis using managers_well_typed [OF i t(1)] by blast
qed

section \<open>Ready without a child, and the ready time of a previous process\<close>

text \<open>
  The startup machine sets the VM ready when \<open>vsock-test\<close> succeeds, whether or not the
  manager has a child: after a death during the wait, an answer from elsewhere makes a VM
  without a process ready, and the boot goes on to the CA.
\<close>

theorem vm_ready_without_child:
  assumes "vm_inv vm" "ca_inv ca" "vm_child_pid vm = None"
    and "instant_now os e = (now, e1)" "now \<le> d" and "probe_vsock cfg os e1 = (True, e2)"
  shows "\<exists>vm' e'. advance_startup cfg os (WaitingVsock d b True) vm ca e = Some (CaStarting, vm', ca, e') \<and>
    vm_state vm' = Vm_Ready \<and> vm_child_pid vm' = None"
  using assms
  by (simp add: advance_startup_match startup_match_def vm_set_state_def Let_def case_prod_beta)

theorem vm_ready_without_child_witness:
  "\<exists>vm' e'. advance_startup default_config sim_os (WaitingVsock 10 0 True) (vm_mark_dead vm_new) ca_new
       (sim_env sim_world) = Some (CaStarting, vm', ca_new, e') \<and>
     vm_state vm' = Vm_Ready \<and> vm_child_pid vm' = None"
proof -
  obtain e1 where n: "instant_now sim_os (sim_env sim_world) = (0, e1)" "world e1 = sim_world"
    by (simp add: sim_eval)
  obtain e2 where "probe_vsock default_config sim_os e1 = (True, e2)"
    using n(2) by (simp add: probe_vsock_def case_prod_beta sim_eval)
  from vm_ready_without_child [OF vm_inv_ops(2) ca_inv_ops(1) _ n(1) _ this] show ?thesis
    by (simp add: vm_mark_dead_def)
qed

text \<open>
  A CA started over a ready one keeps the ready time of the process it replaces: it is running
  and not ready, yet the next reset, if it comes 60 s after that time, clears its counter.
\<close>

theorem ca_stale_ready_resets:
  assumes "ca_ready_since m = Some s" and "ca_start cfg cid os m e = (Inr u, m', e')"
    and "ca_maybe_reset_crash_count os m' e2 = (m'', e3)" and "s + 60 * ns_per_sec \<le> clock e3"
  shows "ca_state m' = Ca_Running \<and> ca_state m'' = Ca_Running \<and> ca_crash_count m'' = 0"
  using assms(2)
proof (cases rule: ca_start_cases)
  case (started e1 p)
  then have "ca_ready_since m' = Some s" using assms(1) by simp
  with started assms(3,4) show ?thesis
    by (auto simp: ca_maybe_reset_crash_count_def elapsed_def instant_now_def case_prod_beta Let_def
        split: if_splits)
qed simp_all

theorem ca_stale_ready_resets_witness:
  "\<exists>m' e' m'' e3. ca_start default_config 103 (sim_os_fs (\<lambda>_. Some 1))
       (ca_new\<lparr>ca_state := Ca_Ready, ca_ready_since := Some 0, ca_crash_count := 4\<rparr>)
       (sim_env sim_world) = (Inr (), m', e') \<and>
     ca_maybe_reset_crash_count (sim_os_fs (\<lambda>_. Some 1)) m' (e'\<lparr>clock := 60 * ns_per_sec\<rparr>) = (m'', e3) \<and>
     ca_state m' = Ca_Running \<and> ca_crash_count m'' = 0"
proof -
  let ?m = "ca_new\<lparr>ca_state := Ca_Ready, ca_ready_since := Some 0, ca_crash_count := 4\<rparr>"
  obtain m' e' where
    s: "ca_start default_config 103 (sim_os_fs (\<lambda>_. Some 1)) ?m (sim_env sim_world) = (Inr (), m', e')"
    by (simp add: ca_start_def spawn_with_log_def rotate_if_needed_def max_log_bytes_def sim_eval)
  obtain m'' e3 where
    r: "ca_maybe_reset_crash_count (sim_os_fs (\<lambda>_. Some 1)) m' (e'\<lparr>clock := 60 * ns_per_sec\<rparr>) = (m'', e3)"
    by (metis surj_pair)
  have "clock (e'\<lparr>clock := 60 * ns_per_sec\<rparr>) \<le> clock e3"
    using op_clock [OF ca_maybe_reset_env [of "e'\<lparr>clock := 60 * ns_per_sec\<rparr>" "sim_os_fs (\<lambda>_. Some 1)" m']] r by simp
  then show ?thesis using ca_stale_ready_resets [OF _ s r] s r by auto
qed

end
