(* ===== verification/Timing.thy ===== *)
theory Timing
  imports Daemon_Run
begin

text \<open>
  How long the operations take on a kernel whose calls are bounded, and that they return. The
  bounds count calls: \<open>T\<close> is the longest a call may take. Nothing here limits what the
  kernel answers.
\<close>

section \<open>A kernel with bounded calls\<close>

definition takes :: "('w, 'a) call \<Rightarrow> nat \<Rightarrow> bool" where
  "takes c n \<longleftrightarrow> (\<forall>w. fst (snd (c w)) \<le> n)"

text \<open>
  Every call takes at most \<open>T\<close> nanoseconds; \<open>poll\<close> at most its timeout and \<open>T\<close>, and
  \<open>sleep\<close> at most \<open>T\<close> more than what was asked.
\<close>

definition prompt :: "'w os \<Rightarrow> nat \<Rightarrow> bool" where
  "prompt os T \<longleftrightarrow>
     takes (os_tick os) T \<and> (\<forall>p s. takes (os_kill os p s) T) \<and> (\<forall>d. takes (os_sleep os d) T) \<and>
     (\<forall>c. takes (os_spawn os c) T) \<and> (\<forall>c. takes (os_run os c) T) \<and> (\<forall>p. takes (os_exists os p) T) \<and>
     (\<forall>p. takes (os_metadata os p) T) \<and> (\<forall>p. takes (os_open_append os p) T) \<and>
     (\<forall>p. takes (os_try_clone os p) T) \<and> (\<forall>p q. takes (os_rename os p q) T) \<and>
     (\<forall>p. takes (os_read_file os p) T) \<and> (\<forall>port n. takes (os_connect os port n) T) \<and>
     (\<forall>s n. takes (os_http os s n) T) \<and> (\<forall>ms. takes (os_poll os ms) (ms * ns_per_ms + T)) \<and>
     takes (os_accept os) T \<and> takes (os_recv os) T \<and> (\<forall>s. takes (os_reply os s) T) \<and>
     takes (os_waitpid os) T"

text \<open>\<open>within n e e'\<close>: at most \<open>n\<close> nanoseconds pass from \<open>e\<close> to \<open>e'\<close>.\<close>

definition within :: "nat \<Rightarrow> 'w env \<Rightarrow> 'w env \<Rightarrow> bool" where
  "within n e e' \<longleftrightarrow> clock e' \<le> clock e + n"

lemma within_refl [simp, intro]: "within n e e"
  by (simp add: within_def)

lemma within_trans: "within m a b \<Longrightarrow> within n b c \<Longrightarrow> m + n \<le> k \<Longrightarrow> within k a c"
  by (simp add: within_def)

lemma within_mono: "within m a b \<Longrightarrow> m \<le> k \<Longrightarrow> within k a b"
  by (simp add: within_def)

lemma within_sys: "takes f n \<Longrightarrow> within n e (snd (sys f evs e))"
  by (simp add: within_def takes_def env_simps)

lemma within_calls:
  assumes "prompt os T"
  shows "within T e (snd (instant_now os e))" "within T e (snd (kill os p s e))"
    "within T e (snd (is_alive os p e))" "within T e (snd (spawn os c e))"
    "within T e (snd (run_command os c e))" "within T e (snd (path_exists os q e))"
    "within T e (snd (metadata_len os q e))" "within T e (snd (open_append os q e))"
    "within T e (snd (try_clone os q e))" "within T e (snd (rename os q q' e))"
    "within T e (snd (connect_timeout os port n e))" "within T e (http_exchange os req n e)"
    "within T e (snd (accept os e))" "within T e (recv_wait os e)" "within T e (snd (reply os msg e))"
    "within T e (snd (waitpid_nohang os e))" "within T e (snd (probe_vsock cfg os e))"
    "within (ms * ns_per_ms + T) e (snd (poll_fds os ms e))"
  using assms
  by (simp_all add: prompt_def instant_now_def Let_def kill_def is_alive_def spawn_def run_command_def
      path_exists_def metadata_len_def open_append_def try_clone_def rename_def connect_timeout_def
      http_exchange_def accept_def recv_wait_def reply_def waitpid_nohang_def poll_fds_def probe_vsock_def
      within_sys)

lemma within_sleep:
  assumes "prompt os T"
  shows "within (d * ns_per_ms + T) e (sleep_ms os d e)"
  using assms by (simp add: prompt_def takes_def within_def sleep_ms_def env_simps case_prod_beta)

lemma within_read_to_string:
  assumes "prompt os T"
  shows "within T e (snd (read_to_string os q e))"
  using within_sys [of "os_read_file os q" T e "\<lambda>r. [EvReadFile q r]"] assms
  by (auto simp: prompt_def read_to_string_def split: prod.splits sum.splits)

section \<open>Starting and stopping\<close>

lemma within_rotate:
  assumes "prompt os T"
  shows "within (2 * T) e (rotate_if_needed os q m e)"
  using within_calls(7) [OF assms, of e q] within_trans [OF within_calls(7) [OF assms] within_calls(10) [OF assms]]
  by (auto simp: rotate_if_needed_def case_prod_beta split: sum.split intro: within_mono)

lemma within_spawn_with_log:
  assumes "prompt os T" "spawn_with_log os cmd args envs lf cwd e = (x, e')"
  shows "within (5 * T) e e'"
proof -
  let ?e1 = "rotate_if_needed os lf max_log_bytes e"
  let ?e2 = "snd (open_append os lf ?e1)"
  let ?e3 = "snd (try_clone os lf ?e2)"
  have 1: "within (2 * T) e ?e1" by (rule within_rotate [OF assms(1)])
  have 2: "within (3 * T) e ?e2" by (rule within_trans [OF 1 within_calls(8) [OF assms(1)]]) simp
  have 3: "within (4 * T) e ?e3" by (rule within_trans [OF 2 within_calls(9) [OF assms(1)]]) simp
  have 4: "within (5 * T) e (snd (spawn os c ?e3))" for c
    by (rule within_trans [OF 3 within_calls(4) [OF assms(1)]]) simp
  have "e' = ?e2 \<or> e' = ?e3 \<or> (\<exists>c. e' = snd (spawn os c ?e3))"
    using assms(2) by (auto simp: spawn_with_log_def Let_def split: prod.splits option.splits) (metis snd_conv)
  then show ?thesis using 2 3 4 by (auto intro: within_mono)
qed

lemma within_check_present:
  assumes "prompt os T"
  shows "within (length ns * T) e (snd (check_present os dir ns e))"
proof (induction ns arbitrary: e)
  case (Cons n ns)
  have "within T e (snd (path_exists os (path_join dir n) e))" by (rule within_calls(6) [OF assms])
  then show ?case using Cons [of "snd (path_exists os (path_join dir n) e)"]
    by (auto simp: case_prod_beta intro: within_mono within_trans)
qed simp

lemma within_check_sizes:
  assumes "prompt os T"
  shows "within (length ns * T) e (snd (check_sizes os dir ns e))"
proof (induction ns arbitrary: e)
  case (Cons n ns)
  have "within T e (snd (metadata_len os (path_join dir n) e))" by (rule within_calls(7) [OF assms])
  then show ?case using Cons [of "snd (metadata_len os (path_join dir n) e)"]
    by (auto simp: case_prod_beta split: sum.split intro: within_mono within_trans)
qed simp

lemma within_validate:
  assumes "prompt os T"
  shows "within (7 * T) e (snd (validate_images cfg os e))"
proof -
  let ?c = "check_present os (image_dir cfg) required_images e"
  have 1: "within (5 * T) e (snd ?c)"
    by (rule within_mono [OF within_check_present [OF assms]]) (simp add: required_images_def)
  have 2: "within (2 * T) (snd ?c) (snd (check_sizes os (image_dir cfg) sized_images (snd ?c)))"
    by (rule within_mono [OF within_check_sizes [OF assms]]) (simp add: sized_images_def)
  show ?thesis using 1 within_trans [OF 1 2, of "7 * T"]
    by (auto simp: validate_images_def case_prod_beta split: sum.split intro: within_mono)
qed

lemma within_vm_start:
  assumes "prompt os T" "vm_start cfg os m e = (r, m', e')"
  shows "within (12 * T) e e'"
  using assms(2)
proof (cases rule: vm_start_cases)
  case invalid
  then show ?thesis using within_validate [OF assms(1), of e cfg] by (auto intro: within_mono)
next
  case (failed e1 err)
  have "within (7 * T) e e1" using within_validate [OF assms(1), of e cfg] failed(1) by simp
  then show ?thesis by (rule within_trans [OF _ within_spawn_with_log [OF assms(1) failed(2)]]) simp
next
  case (started e1 p)
  have "within (7 * T) e e1" using within_validate [OF assms(1), of e cfg] started(1) by simp
  then show ?thesis by (rule within_trans [OF _ within_spawn_with_log [OF assms(1) started(2)]]) simp
qed

lemma within_ca_start:
  assumes "prompt os T" "ca_start cfg cid os m e = (r, m', e')"
  shows "within (6 * T) e e'"
  using assms(2)
proof (cases rule: ca_start_cases)
  case missing
  then show ?thesis using within_calls(6) [OF assms(1), of e "ca_binary cfg"] by (auto intro: within_mono)
next
  case (failed e1 err)
  have "within T e e1" using within_calls(6) [OF assms(1), of e "ca_binary cfg"] failed(1) by simp
  then show ?thesis by (rule within_trans [OF _ within_spawn_with_log [OF assms(1) failed(2)]]) simp
next
  case (started e1 p)
  have "within T e e1" using within_calls(6) [OF assms(1), of e "ca_binary cfg"] started(1) by simp
  then show ?thesis by (rule within_trans [OF _ within_spawn_with_log [OF assms(1) started(2)]]) simp
qed

text \<open>The rounds of 200 ms the wait of \<open>graceful_kill\<close> makes at most.\<close>

definition rounds :: "nat \<Rightarrow> nat" where
  "rounds x = (x + 199999999) div 200000000"

lemma rounds_step: "0 < x \<Longrightarrow> y \<le> x - 200000000 \<Longrightarrow> Suc (rounds y) \<le> rounds x"
proof (cases "x \<le> 200000000")
  case True
  moreover assume "0 < x" "y \<le> x - 200000000"
  ultimately have "y = 0" "200000000 div 200000000 \<le> (x + 199999999) div 200000000"
    by (simp, intro div_le_mono) simp
  then show ?thesis by (simp add: rounds_def)
next
  case False
  moreover assume "y \<le> x - 200000000"
  ultimately have "(y + 199999999 + 200000000) div 200000000 \<le> (x + 199999999) div 200000000"
    by (intro div_le_mono) simp
  then show ?thesis by (simp add: rounds_def)
qed

lemma rounds_pos: "0 < x \<Longrightarrow> 0 < rounds x"
  unfolding rounds_def by linarith

lemma rounds_secs: "rounds (n * ns_per_sec) = 5 * n"
  unfolding rounds_def ns_per_sec_def by linarith

lemma within_grace_wait:
  assumes "prompt os T"
  shows "within (rounds (deadline - clock e) * (200 * ns_per_ms + 3 * T) + T) e (snd (grace_wait os p deadline e))"
  using assms
proof (induction os p deadline e rule: grace_wait.induct)
  case (1 os p deadline e)
  obtain now e1 where n: "instant_now os e = (now, e1)" by fastforce
  obtain alive e2 where a: "is_alive os p e1 = (alive, e2)" by fastforce
  note IH = "1.IH" and prompt = "1.prems"
  have w1: "within T e e1" using within_calls(1) [OF prompt, of e] n by simp
  have w2: "within T e1 e2" using within_calls(3) [OF prompt, of e1 p] a by simp
  let ?e3 = "sleep_ms os 200 e2" and ?k = "200 * ns_per_ms + 3 * T"
  have w3: "within (200 * ns_per_ms + T) e2 ?e3" by (rule within_sleep [OF prompt])
  show ?case
  proof (cases "now < deadline")
    case False
    then show ?thesis using n w1 by (auto simp: grace_wait.simps [of os p deadline e] intro: within_mono)
  next
    case late: True
    have e: "clock e < deadline" using late instant_now_ge [of e os] n by simp
    show ?thesis
    proof (cases alive)
      case False
      have "1 * ?k \<le> rounds (deadline - clock e) * ?k"
        using rounds_pos [of "deadline - clock e"] e by (intro mult_le_mono1) simp
      then have "T \<le> rounds (deadline - clock e) * ?k" by (rule order_trans [rotated]) simp
      then have "T + T \<le> rounds (deadline - clock e) * ?k + T" by (rule add_le_mono1)
      then have "within (rounds (deadline - clock e) * ?k + T) e e2" by (rule within_trans [OF w1 w2])
      then show ?thesis using n a late False by (simp add: grace_wait.simps [of os p deadline e])
    next
      case True
      have "clock e + 200 * ns_per_ms \<le> clock ?e3" using grace_wait_progress [of e os p] n a by simp
      then have "Suc (rounds (deadline - clock ?e3)) \<le> rounds (deadline - clock e)"
        using e by (intro rounds_step) (simp_all add: ns_per_ms_def)
      then have "?k + rounds (deadline - clock ?e3) * ?k \<le> rounds (deadline - clock e) * ?k"
        using mult_le_mono1 [of "Suc (rounds (deadline - clock ?e3))" "rounds (deadline - clock e)" ?k] by simp
      moreover have "within ?k e ?e3"
        using w1 w2 w3 by (simp add: within_def)
      moreover have "within (rounds (deadline - clock ?e3) * ?k + T) ?e3 (snd (grace_wait os p deadline ?e3))"
        using IH [OF n [symmetric] refl late a [symmetric] refl _ prompt] True by simp
      ultimately have "within (rounds (deadline - clock e) * ?k + T) e (snd (grace_wait os p deadline ?e3))"
        by (simp add: within_def)
      then show ?thesis using n a late True by (simp add: grace_wait.simps [of os p deadline e])
    qed
  qed
qed

text \<open>
  \<open>fits S n e\<close>: in \<open>n\<close> nanoseconds from now, a deadline \<open>S\<close> nanoseconds ahead still is
  an \<open>Instant\<close>.
\<close>

definition fits :: "nat \<Rightarrow> nat \<Rightarrow> 'w env \<Rightarrow> bool" where
  "fits S n e \<longleftrightarrow> clock e + n + S < 2 ^ 63 * ns_per_sec"

lemma fits_after: "fits S k a \<Longrightarrow> within m a b \<Longrightarrow> m + n \<le> k \<Longrightarrow> fits S n b"
  by (simp add: fits_def within_def)

lemma fits_mono: "fits S k a \<Longrightarrow> n \<le> k \<Longrightarrow> fits S n a"
  by (simp add: fits_def)

lemma fits_deadline: "fits S n e \<Longrightarrow> unat secs * ns_per_sec \<le> S \<Longrightarrow> instant_add (clock e) secs \<noteq> None"
  by (simp add: fits_def instant_add_def Let_def)

definition grace_ns :: "config \<Rightarrow> nat" where
  "grace_ns cfg = unat (shutdown_grace_secs cfg) * ns_per_sec"

text \<open>How long a stop may take: the grace period, its rounds of three calls, and the rest.\<close>

definition stop_time :: "config \<Rightarrow> nat \<Rightarrow> nat" where
  "stop_time cfg T = grace_ns cfg + 100 * ns_per_ms + (15 * unat (shutdown_grace_secs cfg) + 7) * T"

lemma graceful_kill_in_time:
  assumes "prompt os T" "fits (grace_ns cfg) (3 * T) e"
  shows "\<exists>r e'. graceful_kill os p (shutdown_grace_secs cfg) e = Some (r, e') \<and> within (stop_time cfg T) e e'"
proof -
  let ?g = "shutdown_grace_secs cfg"
  obtain alive e1 where a: "is_alive os p e = (alive, e1)" by fastforce
  obtain x e2 where k: "kill os p (Some SIGTERM) e1 = (x, e2)" by fastforce
  obtain now e3 where n: "instant_now os e2 = (now, e3)" by fastforce
  have w1: "within T e e1" using within_calls(3) [OF assms(1), of e p] a by simp
  have w2: "within T e1 e2" using within_calls(2) [OF assms(1), of e1 p] k by (metis snd_conv)
  have w3: "within T e2 e3" using within_calls(1) [OF assms(1), of e2] n by simp
  have now: "now = clock e3" using instant_now_fst [of os e2] n by simp
  have w: "within (3 * T) e e3" using w1 w2 w3 by (simp add: within_def)
  then have "fits (grace_ns cfg) 0 e3" using fits_after [OF assms(2)] by simp
  then obtain d where d: "instant_add now ?g = Some d"
    using fits_deadline [of "grace_ns cfg" 0 e3 ?g] now by (auto simp: grace_ns_def)
  then have "d - clock e3 = unat ?g * ns_per_sec" using instant_add_SomeD now by fastforce
  then have r: "rounds (d - clock e3) = 5 * unat ?g" by (simp add: rounds_secs)
  obtain gone e4 where g: "grace_wait os p d e3 = (gone, e4)" by fastforce
  have w4: "within (5 * unat ?g * (200 * ns_per_ms + 3 * T) + T) e3 e4"
    using within_grace_wait [OF assms(1), of d e3 p] g r by simp
  obtain y e5 where k2: "kill os p (Some SIGKILL) e4 = (y, e5)" by fastforce
  have w5: "within T e4 e5" using within_calls(2) [OF assms(1), of e4 p] k2 by (metis snd_conv)
  have w6: "within (100 * ns_per_ms + T) e5 (sleep_ms os 100 e5)" by (rule within_sleep [OF assms(1)])
  obtain z e7 where a2: "is_alive os p (sleep_ms os 100 e5) = (z, e7)" by fastforce
  have w7: "within T (sleep_ms os 100 e5) e7"
    using within_calls(3) [OF assms(1), of "sleep_ms os 100 e5" p] a2 by simp
  have g5: "5 * unat ?g * (200 * ns_per_ms + 3 * T) = grace_ns cfg + 15 * unat ?g * T"
    by (simp add: grace_ns_def ns_per_ms_def ns_per_sec_def algebra_simps)
  have "within (stop_time cfg T) e e1" "within (stop_time cfg T) e e4" "within (stop_time cfg T) e e7"
    using w w1 w4 w5 w6 w7 unfolding g5 by (simp_all add: within_def stop_time_def algebra_simps)
  then show ?thesis using a k n d g k2 a2 by (auto simp: graceful_kill_def)
qed

lemma ca_stop_in_time:
  assumes "prompt os T" "fits (grace_ns cfg) (3 * T) e"
  shows "\<exists>m' e'. ca_stop cfg os m e = Some (m', e') \<and> within (stop_time cfg T) e e'"
proof (cases "ca_child_pid m")
  case None
  then show ?thesis by (simp add: ca_stop_def)
next
  case (Some p)
  obtain r e1 where "graceful_kill os p (shutdown_grace_secs cfg) e = Some (r, e1)" "within (stop_time cfg T) e e1"
    using graceful_kill_in_time [OF assms] by blast
  with Some show ?thesis by (simp add: ca_stop_def)
qed

lemma vm_stop_in_time:
  assumes "prompt os T" "fits (grace_ns cfg) (3 * T) e"
  shows "\<exists>m' e'. vm_stop cfg os m e = Some (m', e') \<and> within (stop_time cfg T + 3 * T) e e'"
proof (cases "vm_child_pid m")
  case None
  then show ?thesis by (simp add: vm_stop_def)
next
  case (Some p)
  obtain r e1 where k: "graceful_kill os p (shutdown_grace_secs cfg) e = Some (r, e1)" "within (stop_time cfg T) e e1"
    using graceful_kill_in_time [OF assms] by blast
  let ?e2 = "kill_tree os p SIGKILL e1"
  have "within (2 * T) e1 ?e2"
    using within_trans [OF within_calls(2) [OF assms(1)] within_calls(5) [OF assms(1)]]
    by (simp add: kill_tree_def case_prod_beta Let_def)
  then have "within (stop_time cfg T + 2 * T) e ?e2" using k(2) by (simp add: within_def)
  then have "within (stop_time cfg T + 3 * T) e (snd (run_command os c ?e2))" for c
    by (rule within_trans [OF _ within_calls(5) [OF assms(1)]]) simp
  with Some k(1) show ?thesis by (simp add: vm_stop_def case_prod_beta Let_def)
qed

end
