(* ===== verification/Turn_Bound.thy ===== *)
theory Turn_Bound
  imports Timing
begin

text \<open>
  Every turn of the loop ends, and how long it takes at most: the commands of a client, the
  reaping of children, the step of the startup machine and the health check, with the bounds
  of \<open>Timing\<close>, and their sum over one turn.
\<close>

section \<open>A client\<close>

definition command_time :: "config \<Rightarrow> nat \<Rightarrow> nat" where
  "command_time cfg T = 2 * stop_time cfg T + 12 * T"

lemma handlers_in_time:
  assumes "prompt os T"
  shows "within (12 * T) e (snd (snd (handle_start_all cfg os vm e)))"
    and "within (12 * T) e (snd (snd (handle_start_vm cfg os vm e)))"
    and "within (6 * T) e (snd (snd (handle_start_ca cfg os ca e)))"
    and "within T e (snd (handle_status os vm ca ph cfg t e))"
    and "within T e (snd (handle_tail_log js cfg os req e))"
proof -
  have v: "within (12 * T) e (snd (snd (vm_start cfg os vm e)))"
    using within_vm_start [OF assms] by (metis prod.collapse)
  have c: "within (6 * T) e (snd (snd (ca_start cfg (vsock_cid cfg) os ca e)))"
    using within_ca_start [OF assms] by (metis prod.collapse)
  show "within (12 * T) e (snd (snd (handle_start_all cfg os vm e)))"
    and "within (12 * T) e (snd (snd (handle_start_vm cfg os vm e)))"
    and "within (6 * T) e (snd (snd (handle_start_ca cfg os ca e)))"
    using v c by (auto simp: handle_start_all_def handle_start_vm_def handle_start_ca_def
        split: prod.splits sum.splits)
  show "within T e (snd (handle_status os vm ca ph cfg t e))"
    using within_calls(1) [OF assms] by (simp add: handle_status_def case_prod_beta Let_def)
  have "within T e (snd (tail_log os p n e))" for p n
    using within_read_to_string [OF assms, of e p]
    by (auto simp: tail_log_def Let_def split: prod.splits sum.splits)
  then show "within T e (snd (handle_tail_log js cfg os req e))"
    by (auto simp: handle_tail_log_def case_prod_beta Let_def split: option.split)
qed

lemma stops_in_time:
  assumes "prompt os T" "fits (grace_ns cfg) (command_time cfg T) e"
  shows "\<exists>r vm' ca' e'. handle_stop_all cfg os vm ca e = Some (r, vm', ca', e') \<and> within (command_time cfg T) e e'"
    and "\<exists>r vm' e'. handle_stop_vm cfg os vm e = Some (r, vm', e') \<and> within (command_time cfg T) e e'"
    and "\<exists>r ca' e'. handle_stop_ca cfg os ca e = Some (r, ca', e') \<and> within (command_time cfg T) e e'"
proof -
  have f: "fits (grace_ns cfg) (3 * T) e" using assms(2) by (rule fits_mono) (simp add: command_time_def)
  obtain ca1 e1 where c: "ca_stop cfg os ca e = Some (ca1, e1)" "within (stop_time cfg T) e e1"
    using ca_stop_in_time [OF assms(1) f] by blast
  have "fits (grace_ns cfg) (3 * T) e1"
    by (rule fits_after [OF assms(2) c(2)]) (simp add: command_time_def)
  then obtain vm1 e2 where v: "vm_stop cfg os vm e1 = Some (vm1, e2)" "within (stop_time cfg T + 3 * T) e1 e2"
    using vm_stop_in_time [OF assms(1)] by blast
  have "within (command_time cfg T) e e2"
    by (rule within_trans [OF c(2) v(2)]) (simp add: command_time_def)
  with c v show "\<exists>r vm' ca' e'. handle_stop_all cfg os vm ca e = Some (r, vm', ca', e') \<and> within (command_time cfg T) e e'"
    by (simp add: handle_stop_all_def)
  have "within (command_time cfg T) e e1"
    using c(2) by (rule within_mono) (simp add: command_time_def)
  with c show "\<exists>r ca' e'. handle_stop_ca cfg os ca e = Some (r, ca', e') \<and> within (command_time cfg T) e e'"
    by (simp add: handle_stop_ca_def)
  obtain vm2 e3 where w: "vm_stop cfg os vm e = Some (vm2, e3)" "within (stop_time cfg T + 3 * T) e e3"
    using vm_stop_in_time [OF assms(1) f] by blast
  have "within (command_time cfg T) e e3"
    using w(2) by (rule within_mono) (simp add: command_time_def)
  with w show "\<exists>r vm' e'. handle_stop_vm cfg os vm e = Some (r, vm', e') \<and> within (command_time cfg T) e e'"
    by (simp add: handle_stop_vm_def)
qed

lemma dispatch_in_time:
  assumes "prompt os T" "fits (grace_ns cfg) (command_time cfg T) e"
  shows "\<exists>r vm' ca' e'. dispatch js cfg os ph t req vm ca e = Some (r, vm', ca', e') \<and>
    within (command_time cfg T) e e'"
proof -
  obtain cmd where cmd: "(case js_get_str js req ''cmd'' of Some s \<Rightarrow> s | None \<Rightarrow> '''') = cmd" by blast
  note start = handlers_in_time [OF assms(1)] and stop = stops_in_time [OF assms]
  have le: "within (command_time cfg T) e e'" if "within (k * T) e e'" "k \<le> 12" for k e'
    using that(1) by (rule within_mono) (simp add: command_time_def that(2) trans_le_add2)
  have le1: "within (command_time cfg T) e e'" if "within T e e'" for e'
    using le [of 1] that by simp
  consider "cmd = ''ping''" | "cmd = ''status''" | "cmd = ''start_all''" | "cmd = ''stop_all''" | "cmd = ''start_vm''"
    | "cmd = ''stop_vm''" | "cmd = ''start_ca''" | "cmd = ''stop_ca''" | "cmd = ''tail_log''"
    | "cmd \<noteq> ''ping''" "cmd \<noteq> ''status''" "cmd \<noteq> ''start_all''" "cmd \<noteq> ''stop_all''" "cmd \<noteq> ''start_vm''"
      "cmd \<noteq> ''stop_vm''" "cmd \<noteq> ''start_ca''" "cmd \<noteq> ''stop_ca''" "cmd \<noteq> ''tail_log''"
    by argo
  then show ?thesis
  proof cases
    case 1
    then show ?thesis by (simp add: dispatch_def cmd)
  next
    case 2
    then show ?thesis using le1 [OF start(4)] by (simp add: dispatch_def cmd case_prod_beta)
  next
    case 3
    then show ?thesis using le [OF start(1)] by (simp add: dispatch_def cmd case_prod_beta)
  next
    case 4
    then show ?thesis using stop(1) by (simp add: dispatch_def cmd)
  next
    case 5
    then show ?thesis using le [OF start(2)] by (simp add: dispatch_def cmd case_prod_beta)
  next
    case 6
    then show ?thesis using stop(2) [of vm] by (auto simp add: dispatch_def cmd)
  next
    case 7
    then show ?thesis using le [OF start(3) [where cfg = cfg and ca = ca]]
      by (cases "handle_start_ca cfg os ca e") (simp add: dispatch_def cmd)
  next
    case 8
    then show ?thesis using stop(3) [of ca] by (auto simp add: dispatch_def cmd)
  next
    case 9
    then show ?thesis using le1 [OF start(5)] by (simp add: dispatch_def cmd case_prod_beta)
  next
    case 10
    then show ?thesis by (simp add: dispatch_def cmd)
  qed
qed

text \<open>One line takes the wait for it, the command and the answer; a line has at least a byte.\<close>

definition client_time :: "config \<Rightarrow> nat \<Rightarrow> nat \<Rightarrow> nat" where
  "client_time cfg T n = n * (command_time cfg T + 2 * T) + T"

lemma client_time_Suc: "m < n \<Longrightarrow> command_time cfg T + 2 * T + client_time cfg T m \<le> client_time cfg T n"
proof -
  assume "m < n"
  then have "Suc m * (command_time cfg T + 2 * T) \<le> n * (command_time cfg T + 2 * T)"
    by (intro mult_le_mono1) simp
  then show ?thesis by (simp add: client_time_def)
qed

lemma client_loop_in_time:
  assumes "prompt os T" "fits (grace_ns cfg) (client_time cfg T (length bs)) e"
  shows "\<exists>vm' ca' e'. client_loop js cfg os ph t bs en vm ca e = Some (vm', ca', e') \<and>
    within (client_time cfg T (length bs)) e e'"
  using assms(2)
proof (induction "length bs" arbitrary: bs vm ca e rule: less_induct)
  case less
  let ?C = "command_time cfg T" and ?n = "client_time cfg T (length bs)"
  let ?e1 = "recv_wait os e"
  have w1: "within T e ?e1" by (rule within_calls(14) [OF assms(1)])
  note unf = client_loop.simps [of js cfg os ph t bs en vm ca e]
  show ?case
  proof (cases "read_line max_request_line_bytes bs en")
    case LineEnd
    have "within ?n e ?e1" using w1 by (rule within_mono) (simp add: client_time_def)
    then show ?thesis using LineEnd unf by simp
  next
    case (Line raw rest)
    have lt: "length rest < length bs" using read_line_shorter Line by blast
    note budget = client_time_Suc [OF lt, of cfg T]
    have go: "\<exists>vm' ca' e'. client_loop js cfg os ph t rest en vm1 ca1 e2 = Some (vm', ca', e') \<and> within ?n e e'"
      if "within (?C + 2 * T) e e2" for vm1 ca1 e2
    proof -
      have "fits (grace_ns cfg) (client_time cfg T (length rest)) e2"
        by (rule fits_after [OF less.prems that budget])
      then show ?thesis using less.hyps [OF lt] within_trans [OF that _ budget] by blast
    qed
    have w2: "within (2 * T) e (snd (write_response js os r ?e1))" for r
      using within_trans [OF w1 within_calls(15) [OF assms(1)]]
      by (simp add: write_response_def Let_def)
    show ?thesis
    proof (cases "request_text raw = []")
      case True
      then show ?thesis using go [of ?e1] within_mono [OF w1, of "?C + 2 * T"] Line unf by simp
    next
      case some: False
      show ?thesis
      proof (cases "js_parse js (request_text raw)")
        case (Inl err)
        then show ?thesis using go [OF within_mono [OF w2]] Line some unf by (simp add: case_prod_beta)
      next
        case (Inr req)
        have "fits (grace_ns cfg) ?C ?e1"
          by (rule fits_after [OF less.prems w1]) (use budget in simp)
        then obtain resp vm1 ca1 e2 where d: "dispatch js cfg os ph t req vm ca ?e1 = Some (resp, vm1, ca1, e2)"
          and w: "within ?C ?e1 e2" using dispatch_in_time [OF assms(1), of cfg ?e1 js ph t req vm ca] by blast
        obtain ok e3 where r: "write_response js os resp e2 = (ok, e3)" by fastforce
        have "within T e2 e3"
          using within_calls(15) [OF assms(1), of e2] r by (metis write_response_def snd_conv)
        then have w3: "within (?C + 2 * T) e e3" using w1 w by (simp add: within_def)
        then have "within ?n e e3" by (rule within_mono) (use budget in simp)
        then show ?thesis using go [OF w3] d r Inr Line some unf by simp
      qed
    qed
  qed
qed

section \<open>Reaping\<close>

text \<open>A report of \<open>waitpid\<close> costs that call and at most one start of the CA.\<close>

lemma within_child_death:
  assumes "prompt os T" "handle_child_death cfg os p vm ca e = (vm', ca', e')"
  shows "within (6 * T) e e'"
  using assms(2)
  by (cases rule: handle_child_death_cases) (auto dest: within_ca_start [OF assms(1)])

lemma reap_loop_time:
  assumes "prompt os T" "reap_loop cfg os b vm ca e = Some (b', vm', ca', e')"
  shows "\<exists>evs. trace e' = trace e @ evs \<and> within (7 * T * length (reports evs) + T) e e'"
  using assms(2)
proof (induct rule: reap_loop_induct)
  case (stop b vm ca e st e1)
  have "within T e e1" using within_calls(16) [OF assms(1), of e] stop(1) by simp
  then show ?case using waitpid_trace [OF stop(1)] stop(2)
    by (intro exI [of _ "[(clock e1, EvWaitpid st)]"]) simp
next
  case (death b vm ca e st e1 p vm1 ca1 e2 b' vm' ca' e')
  then obtain evs where evs: "trace e' = trace e2 @ evs" "within (7 * T * length (reports evs) + T) e2 e'" by blast
  obtain evs2 where 2: "trace e2 = trace e1 @ evs2" "reports evs2 = []"
    using reports_op [OF handle_child_death_env [OF death(3)]] by blast
  have "within T e e1" using within_calls(16) [OF assms(1), of e] death(1) by simp
  then have "within (7 * T) e e2"
    by (rule within_trans [OF _ within_child_death [OF assms(1) death(3)]]) simp
  then have "within (7 * T * Suc (length (reports evs)) + T) e e'"
    by (rule within_trans [OF _ evs(2)]) simp
  then show ?case using waitpid_trace [OF death(1)] death(2) 2 evs(1)
    by (intro exI [of _ "(clock e1, EvWaitpid st) # evs2 @ evs"]) simp
qed

lemma check_signals_in_time:
  assumes "prompt os T" "counts_children os r" "unat (ca_crash_count ca) + r (world e) + 5 < 2 ^ 32"
  shows "\<exists>b vm' ca' e'. check_signals cfg os vm ca e = Some (b, vm', ca', e') \<and>
    within (7 * T * (r (world e) + 5) + T) e e'"
proof -
  let ?e1 = "snd (read_sigpipe 64 e)"
  have e1: "clock ?e1 = clock e" "world ?e1 = world e" "trace ?e1 = trace e" by (simp_all add: read_sigpipe_def)
  have "unat (ca_crash_count ca) + r (world ?e1) + (5 - unat (ca_crash_count ca)) < 2 ^ 32"
    using assms(3) e1 by simp
  from reap_loop_returns [OF assms(2) this, of cfg False vm]
  obtain b' vm' ca' e' evs where l: "reap_loop cfg os False vm ca ?e1 = Some (b', vm', ca', e')"
    and evs: "trace e' = trace ?e1 @ evs" "length (reports evs) \<le> r (world ?e1) + (5 - unat (ca_crash_count ca))"
    by blast
  have t: "within (7 * T * length (reports evs) + T) ?e1 e'"
    using reap_loop_time [OF assms(1) l] evs(1) by auto
  have "7 * T * length (reports evs) \<le> 7 * T * (r (world e) + 5)"
    using evs(2) e1 by (intro mult_le_mono2) simp
  then have "7 * T * length (reports evs) + T \<le> 7 * T * (r (world e) + 5) + T" by (rule add_le_mono1)
  from within_mono [OF t this] have "within (7 * T * (r (world e) + 5) + T) e e'"
    using e1(1) by (simp only: within_def)
  then show ?thesis using l e1(1)
    by (auto simp: check_signals_def reap_children_def case_prod_beta within_def)
qed

section \<open>The startup machine and the health check\<close>

lemma within_set_ready:
  assumes "prompt os T"
  shows "within T e (snd (vm_set_state os s vm e))" "within T e (snd (ca_set_state os s' ca e))"
    "within T e (snd (vm_maybe_reset_crash_count os vm e))"
    "within T e (snd (ca_maybe_reset_crash_count os ca e))"
  using within_calls(1) [OF assms]
  by (auto simp: vm_set_state_def ca_set_state_def vm_maybe_reset_crash_count_def
      ca_maybe_reset_crash_count_def Let_def case_prod_beta split: option.split)

lemma within_port:
  assumes "prompt os T"
  shows "within (2 * T) e (snd (is_port_ready cfg os e))"
  using within_calls(11) [OF assms, of e "ca_port cfg" 1]
    within_trans [OF within_calls(11) [OF assms] within_calls(12) [OF assms]]
  by (auto simp: is_port_ready_def case_prod_beta split: sum.split intro: within_mono)

lemma within_probe:
  assumes "prompt os T" "health_probe os h e = (x, h', e')"
  shows "within (2 * T) e e'"
  using assms(2) within_calls(11) [OF assms(1), of e "hm_port h" 2]
    within_trans [OF within_calls(11) [OF assms(1)] within_calls(12) [OF assms(1)]]
  by (auto simp: health_probe_def case_prod_beta Let_def split: sum.splits prod.splits intro: within_mono)

text \<open>The longest time a deadline of the configuration lies ahead.\<close>

definition longest_wait :: "config \<Rightarrow> nat" where
  "longest_wait cfg =
     max (grace_ns cfg)
       (max (unat (vsock_probe_delay_secs cfg + vm_boot_timeout_secs cfg) * ns_per_sec)
          (unat (ca_ready_timeout_secs cfg) * ns_per_sec))"

lemma longest_wait_ge:
  "grace_ns cfg \<le> longest_wait cfg"
  "unat (vsock_probe_delay_secs cfg + vm_boot_timeout_secs cfg) * ns_per_sec \<le> longest_wait cfg"
  "unat (ca_ready_timeout_secs cfg) * ns_per_sec \<le> longest_wait cfg"
  by (simp_all add: longest_wait_def)

lemma fits_grace: "fits (longest_wait cfg) n e \<Longrightarrow> fits (grace_ns cfg) n e"
  using longest_wait_ge(1) [of cfg] by (simp add: fits_def)

lemma startup_match_in_time:
  assumes "prompt os T" "fits (longest_wait cfg) (13 * T) e"
  shows "\<exists>ph' vm' ca' e'. startup_match cfg os ph vm ca e = Some (ph', vm', ca', e') \<and> within (13 * T) e e'"
proof (cases ph)
  case VmStarting
  obtain r vm1 e1 where s: "vm_start cfg os vm e = (r, vm1, e1)" by (cases "vm_start cfg os vm e")
  obtain now e2 where n: "instant_now os e1 = (now, e2)" by fastforce
  have w1: "within (12 * T) e e1" by (rule within_vm_start [OF assms(1) s])
  have w2: "within T e1 e2" using within_calls(1) [OF assms(1), of e1] n by simp
  have w: "within (13 * T) e e2" by (rule within_trans [OF w1 w2]) simp
  have "fits (longest_wait cfg) 0 e2" by (rule fits_after [OF assms(2) w]) simp
  moreover have "now = clock e2" using instant_now_fst [of os e1] n by simp
  ultimately obtain d where "instant_add now (vsock_probe_delay_secs cfg + vm_boot_timeout_secs cfg) = Some d"
    using fits_deadline longest_wait_ge(2) by blast
  then show ?thesis using VmStarting s n w within_mono [OF w1, of "13 * T"]
    by (cases r) (simp_all add: startup_match_def)
next
  case CaStarting
  obtain r ca1 e1 where s: "ca_start cfg (vsock_cid cfg) os ca e = (r, ca1, e1)"
    by (cases "ca_start cfg (vsock_cid cfg) os ca e")
  obtain now e2 where n: "instant_now os e1 = (now, e2)" by fastforce
  have w1: "within (6 * T) e e1" by (rule within_ca_start [OF assms(1) s])
  have w2: "within T e1 e2" using within_calls(1) [OF assms(1), of e1] n by simp
  have w: "within (13 * T) e e2" by (rule within_trans [OF w1 w2]) simp
  have "fits (longest_wait cfg) 0 e2" by (rule fits_after [OF assms(2) w]) simp
  moreover have "now = clock e2" using instant_now_fst [of os e1] n by simp
  ultimately obtain d where "instant_add now (ca_ready_timeout_secs cfg) = Some d"
    using fits_deadline longest_wait_ge(3) by blast
  then show ?thesis using CaStarting s n w within_mono [OF w1, of "13 * T"]
    by (cases r) (simp_all add: startup_match_def)
next
  case (WaitingVsock d b x)
  let ?e1 = "snd (instant_now os e)"
  have w1: "within T e ?e1" by (rule within_calls(1) [OF assms(1)])
  have w2: "within (2 * T) e (snd (probe_vsock cfg os ?e1))"
    by (rule within_trans [OF w1 within_calls(17) [OF assms(1)]]) simp
  have w3: "within (3 * T) e (snd (vm_set_state os s vm (snd (probe_vsock cfg os ?e1))))" for s
    by (rule within_trans [OF w2 within_set_ready(1) [OF assms(1)]]) simp
  show ?thesis using within_mono [OF w1, of "13 * T"] within_mono [OF w2, of "13 * T"] within_mono [OF w3, of "13 * T"]
    by (auto simp: WaitingVsock startup_match_def case_prod_beta Let_def)
next
  case (WaitingCaPort d)
  let ?e1 = "snd (is_port_ready cfg os e)"
  have w1: "within (2 * T) e ?e1" by (rule within_port [OF assms(1)])
  have w2: "within (3 * T) e (snd (instant_now os ?e1))"
    by (rule within_trans [OF w1 within_calls(1) [OF assms(1)]]) simp
  have w3: "within (3 * T) e (snd (ca_set_state os s ca ?e1))" for s
    by (rule within_trans [OF w1 within_set_ready(2) [OF assms(1)]]) simp
  obtain ca2 e2 where s: "ca_set_state os Ca_Ready ca ?e1 = (ca2, e2)" by fastforce
  show ?thesis using within_mono [OF w2, of "13 * T"] within_mono [OF w3, of "13 * T" Ca_Ready] s
    by (auto simp: WaitingCaPort startup_match_def case_prod_beta Let_def)
qed (simp_all add: startup_match_def)

lemma advance_startup_in_time:
  assumes "prompt os T" "fits (longest_wait cfg) (15 * T) e"
  shows "\<exists>ph' vm' ca' e'. advance_startup cfg os ph vm ca e = Some (ph', vm', ca', e') \<and> within (15 * T) e e'"
proof -
  obtain vd e1 where v: "vm_is_dead os vm e = (vd, e1)" by fastforce
  obtain cd e2 where c: "ca_is_dead os ca e1 = (cd, e2)" by fastforce
  have "within T e (snd (vm_is_dead os vm e))" "within T e1 (snd (ca_is_dead os ca e1))"
    using within_calls(3) [OF assms(1)] by (auto simp: vm_is_dead_def ca_is_dead_def case_prod_beta split: option.split)
  then have w: "within T e e1" "within (2 * T) e e2" using v c by (simp_all add: within_def)
  have "fits (longest_wait cfg) (13 * T) e2" by (rule fits_after [OF assms(2) w(2)]) simp
  from startup_match_in_time [OF assms(1) this, of ph vm ca] obtain ph' vm' ca' e' where
    m: "startup_match cfg os ph vm ca e2 = Some (ph', vm', ca', e')" and w3: "within (13 * T) e2 e'" by blast
  have "within (15 * T) e e'" by (rule within_trans [OF w(2) w3]) simp
  then show ?thesis using v c m within_mono [OF w(1), of "15 * T"] within_mono [OF w(2), of "15 * T"]
    by (auto simp: advance_startup_def)
qed

lemma health_check_in_time:
  assumes "prompt os T" "fits (grace_ns cfg) (6 * T) e"
  shows "\<exists>h' ca' lh' e'. health_check cfg os h ca lh e = Some (h', ca', lh', e') \<and>
    within (stop_time cfg T + 10 * T) e e'"
proof -
  let ?n = "stop_time cfg T + 10 * T"
  obtain now e1 where n: "instant_now os e = (now, e1)" by fastforce
  obtain x h1 e2 where p: "health_probe os h e1 = (x, h1, e2)" by (cases "health_probe os h e1")
  have w1: "within T e e1" using within_calls(1) [OF assms(1), of e] n by simp
  have w2: "within (3 * T) e e2" by (rule within_trans [OF w1 within_probe [OF assms(1) p]]) simp
  have "fits (grace_ns cfg) (3 * T) e2" by (rule fits_after [OF assms(2) w2]) simp
  then obtain ca1 e3 where s: "ca_stop cfg os ca e2 = Some (ca1, e3)" and w3: "within (stop_time cfg T) e2 e3"
    using ca_stop_in_time [OF assms(1)] by blast
  obtain y ca2 e4 where c: "ca_start cfg (vsock_cid cfg) os ca1 e3 = (y, ca2, e4)"
    by (cases "ca_start cfg (vsock_cid cfg) os ca1 e3")
  have w4: "within (6 * T) e3 e4" by (rule within_ca_start [OF assms(1) c])
  have w: "within (stop_time cfg T + 9 * T) e e4" using w2 w3 w4 by (simp add: within_def)
  have final: "\<exists>lh' e''. instant_now os e' = (lh', e'') \<and> within ?n e e''"
    if "within (stop_time cfg T + 9 * T) e e'" for e'
  proof -
    have "within ?n e (snd (instant_now os e'))"
      by (rule within_trans [OF that within_calls(1) [OF assms(1)]]) simp
    then show ?thesis by (cases "instant_now os e'") simp
  qed
  show ?thesis
    using n p s c final [OF w] final [OF within_mono [OF w1]] final [OF within_mono [OF w2]] within_mono [OF w1, of ?n]
    by (cases x) (auto simp: health_check_def)
qed

section \<open>A turn of the loop\<close>

text \<open>
  The longest turn, with \<open>k\<close> children to reap and a client that sends \<open>n\<close> bytes: 10 s of
  \<open>poll\<close>, the reaping, the client, and the rest.
\<close>

definition turn_time :: "config \<Rightarrow> nat \<Rightarrow> nat \<Rightarrow> nat \<Rightarrow> nat" where
  "turn_time cfg T k n =
     10 * ns_per_sec + 7 * T * (k + 5) + client_time cfg T n + stop_time cfg T + 31 * T"

lemma serve_ipc_in_time:
  assumes "prompt os T" "fits (grace_ns cfg) (client_time cfg T n + T) e"
    and "\<forall>w c. fst (os_accept os w) = Some c \<longrightarrow> length (conn_bytes c) \<le> n"
  shows "\<exists>vm' ca' e'. serve_ipc js cfg os ph t vm ca e = Some (vm', ca', e') \<and> within (client_time cfg T n + T) e e'"
proof -
  obtain c e1 where a: "accept os e = (c, e1)" by fastforce
  have w: "within T e e1" using within_calls(13) [OF assms(1), of e] a by simp
  show ?thesis
  proof (cases c)
    case None
    then show ?thesis using a within_mono [OF w, of "client_time cfg T n + T"] by (simp add: serve_ipc_def)
  next
    case (Some conn)
    have "Some conn = fst (os_accept os (world e))" using sys_facts(3) [OF a [unfolded accept_def]] Some by simp
    then have "length (conn_bytes conn) \<le> n" using assms(3) by metis
    then have le: "client_time cfg T (length (conn_bytes conn)) \<le> client_time cfg T n"
      by (simp add: client_time_def)
    have "fits (grace_ns cfg) (client_time cfg T (length (conn_bytes conn))) e1"
      by (rule fits_after [OF assms(2) w]) (use le in simp)
    from client_loop_in_time [OF assms(1) this, of js ph t "conn_end conn" vm ca] obtain vm' ca' e' where
      l: "client_loop js cfg os ph t (conn_bytes conn) (conn_end conn) vm ca e1 = Some (vm', ca', e')"
      and w2: "within (client_time cfg T (length (conn_bytes conn))) e1 e'" by blast
    have "within (client_time cfg T n + T) e e'" by (rule within_trans [OF w w2]) (use le in simp)
    then show ?thesis using a Some l by (simp add: serve_ipc_def handle_client_def)
  qed
qed

text \<open>
  C5. Every turn of the loop ends, and soon. On a kernel whose calls take at most \<open>T\<close>
  nanoseconds and that accounts for children, whatever it answers, whatever signals arrive and
  whatever a client sends (at most \<open>n\<close> bytes on its connection), a turn neither panics nor
  hangs, and it takes at most \<open>turn_time\<close>: 10 s of \<open>poll\<close> and terms for the children to
  reap, the client's commands and the health check; provided no deadline of the configuration,
  counted from the end of the turn, is beyond what an \<open>Instant\<close> holds.
\<close>

theorem turn_ends_in_time:
  assumes "prompt os T" and k: "counts_children os r" "\<And>w. r (snd (snd (snd (os_tick os w)))) \<le> r w"
      "\<And>ms w. r (snd (snd (snd (os_poll os ms w)))) \<le> r w"
    and c: "unat (ca_crash_count (d_ca d)) + r (world e) + 5 < 2 ^ 32"
    and n: "\<And>w conn. fst (os_accept os w) = Some conn \<Longrightarrow> length (conn_bytes conn) \<le> n"
    and f: "clock e + turn_time cfg T (r (world e)) n + longest_wait cfg < 2 ^ 63 * ns_per_sec"
  shows "\<exists>brk d' e'. main_iter js cfg os t d e = Some (brk, d', e') \<and>
    clock e' \<le> clock e + turn_time cfg T (r (world e)) n"
proof -
  let ?S = "7 * T * (r (world e) + 5)" and ?C = "client_time cfg T n" and ?P = "10000 * ns_per_ms"
  let ?L = "longest_wait cfg"
  have tt: "turn_time cfg T (r (world e)) n = ?P + ?S + ?C + stop_time cfg T + 31 * T"
    by (simp add: turn_time_def ns_per_sec_def ns_per_ms_def)
  have F: "fits ?L (?P + ?S + ?C + stop_time cfg T + 31 * T) e" using f unfolding tt fits_def .
  obtain now e1 where i: "instant_now os e = (now, e1)" by fastforce
  let ?ms = "unat (poll_timeout (d_phase d) (health_interval cfg - elapsed now (d_last_health d)))"
  obtain ready e2 where q: "poll_fds os ?ms e1 = (ready, e2)" by fastforce
  have w1: "within T e e1" using within_calls(1) [OF assms(1), of e] i by simp
  have wp: "within (?ms * ns_per_ms + T) e1 e2" using within_calls(18) [OF assms(1), of ?ms e1] q by simp
  have "?ms * ns_per_ms \<le> ?P" by (intro mult_le_mono1 poll_timeout_range)
  then have "T + (?ms * ns_per_ms + T) \<le> ?P + 2 * T" by linarith
  from within_trans [OF w1 wp this] have w2: "within (?P + 2 * T) e e2" .
  have "r (world e1) \<le> r (world e)"
    using i k(2) [of "world e"] by (auto simp: instant_now_def Let_def env_simps)
  moreover have "r (world e2) \<le> r (world e1)"
    using sys_facts(4) [OF q [unfolded poll_fds_def]] k(3) [of ?ms "world e1"] by simp
  ultimately have r2: "r (world e2) \<le> r (world e)" by simp
  then have c2: "unat (ca_crash_count (d_ca d)) + r (world e2) + 5 < 2 ^ 32" using c by simp
  have "7 * T * (r (world e2) + 5) + T \<le> ?S + T" using r2 by simp
  then obtain g vm1 ca1 e3 where s: "(if sig_ready e1 ready e2 then check_signals cfg os (d_vm d) (d_ca d) e2
           else Some (False, d_vm d, d_ca d, e2)) = Some (g, vm1, ca1, e3)"
    and ws: "within (?S + T) e2 e3"
    using check_signals_in_time [OF assms(1) k(1) c2, of cfg "d_vm d"] within_mono
    by (cases "sig_ready e1 ready e2") (fastforce, auto)
  have w3: "within (?P + ?S + 3 * T) e e3" by (rule within_trans [OF w2 ws]) simp
  have "fits (grace_ns cfg) (?C + T) e3" by (rule fits_after [OF fits_grace [OF F] w3]) simp
  moreover have "\<forall>w c. fst (os_accept os w) = Some c \<longrightarrow> length (conn_bytes c) \<le> n" using n by blast
  ultimately obtain vms cas es where
    served: "serve_ipc js cfg os (d_phase d) t vm1 ca1 e3 = Some (vms, cas, es)" "within (?C + T) e3 es"
    using serve_ipc_in_time [OF assms(1)] by blast
  obtain vm2 ca2 e4 where ipc: "(case ready of
               Some (True, _) \<Rightarrow> serve_ipc js cfg os (d_phase d) t vm1 ca1 e3
             | _ \<Rightarrow> Some (vm1, ca1, e3)) = Some (vm2, ca2, e4)" and wi: "within (?C + T) e3 e4"
  proof (cases "\<exists>s. ready = Some (True, s)")
    case True
    then show thesis using that [of vms cas es] served by auto
  next
    case False
    then show thesis using that [of vm1 ca1 e3] by (auto split: option.split bool.split)
  qed
  have w4: "within (?P + ?S + ?C + 4 * T) e e4" by (rule within_trans [OF w3 wi]) simp
  have "fits ?L (15 * T) e4" by (rule fits_after [OF F w4]) simp
  then obtain ph vm3 ca3 e5 where a: "advance_startup cfg os (d_phase d) vm2 ca2 e4 = Some (ph, vm3, ca3, e5)"
    and wa: "within (15 * T) e4 e5" using advance_startup_in_time [OF assms(1)] by blast
  have w5: "within (?P + ?S + ?C + 19 * T) e e5" by (rule within_trans [OF w4 wa]) simp
  have "fits (grace_ns cfg) (6 * T) e5" by (rule fits_after [OF fits_grace [OF F] w5]) simp
  then obtain h ca4 lh e6 where
    hc: "health_check cfg os (d_health d) ca3 (d_last_health d) e5 = Some (h, ca4, lh, e6)"
    and wh: "within (stop_time cfg T + 10 * T) e5 e6" using health_check_in_time [OF assms(1)] by blast
  have w6: "within (?P + ?S + ?C + stop_time cfg T + 29 * T) e e6" by (rule within_trans [OF w5 wh]) simp
  obtain vm4 e7 where v: "vm_maybe_reset_crash_count os vm3 e6 = (vm4, e7)" by fastforce
  obtain ca5 e8 where z: "ca_maybe_reset_crash_count os ca4 e7 = (ca5, e8)" by fastforce
  have "within T e6 e7" "within T e7 e8"
    using within_set_ready(3,4) [OF assms(1)] v z by (metis snd_conv)+
  then have w8: "clock e8 \<le> clock e + turn_time cfg T (r (world e)) n"
    using w6 unfolding tt by (simp add: within_def)
  have "clock e3 \<le> clock e + turn_time cfg T (r (world e)) n"
    using w3 unfolding tt by (simp add: within_def)
  then show ?thesis using i q s ipc a hc v z w8 by (cases g) (simp_all add: main_iter_def, blast+)
qed

lemma sim_prompt: "prompt (sim_os\<lparr>os_accept := a\<rparr>) 1000 \<longleftrightarrow> takes a 1000"
  by (auto simp: prompt_def takes_def sim_os_def answer_def sim_kill_def sim_spawn_def sim_run_def
      sim_metadata_def sim_connect_def sim_poll_def sim_waitpid_def split: option.split proc_status.split list.split)

theorem turn_ends_in_time_witness:
  "\<exists>brk d' e'. main_iter sim_json default_config (sim_os\<lparr>os_accept := answer None 0\<rparr>) 0
      \<lparr>d_vm = vm_new, d_ca = ca_new, d_health = health_new 19030 3, d_phase = VmStarting, d_last_health = 0\<rparr>
      (sim_env sim_world) = Some (brk, d', e') \<and> clock e' \<le> 14 * ns_per_sec"
proof -
  let ?os = "sim_os\<lparr>os_accept := answer None 0\<rparr>" and ?r = "\<lambda>w. length (s_procs w)"
  let ?d = "\<lparr>d_vm = vm_new, d_ca = ca_new, d_health = health_new 19030 3, d_phase = VmStarting, d_last_health = 0\<rparr>"
  have p: "prompt ?os 1000" by (simp add: sim_prompt takes_def answer_def)
  have k: "counts_children ?os ?r" using sim_counts_children by (simp add: counts_children_def)
  have t: "turn_time default_config 1000 (?r (world (sim_env sim_world))) 0 \<le> 14 * ns_per_sec"
    by (simp add: turn_time_def client_time_def command_time_def stop_time_def grace_ns_def default_defs
        ns_per_sec_def ns_per_ms_def sim_env_def sim_world_def)
  have "\<exists>brk d' e'. main_iter sim_json default_config ?os 0 ?d (sim_env sim_world) = Some (brk, d', e') \<and>
      clock e' \<le> clock (sim_env sim_world) + turn_time default_config 1000 (?r (world (sim_env sim_world))) 0"
  proof (rule turn_ends_in_time [OF p k])
    show "clock (sim_env sim_world) + turn_time default_config 1000 (?r (world (sim_env sim_world))) 0 +
        longest_wait default_config < 2 ^ 63 * ns_per_sec"
      using t by (simp add: longest_wait_def grace_ns_def default_defs ns_per_sec_def sim_env_def)
  qed (auto simp: sim_os_def answer_def sim_poll_def sim_env_def sim_world_def ca_new_def)
  moreover have "clock (sim_env sim_world) = 0" by (simp add: sim_env_def)
  ultimately show ?thesis using t by (metis (no_types, lifting) add_0 le_trans)
qed

end
