(* ===== verification/Boot.thy ===== *)
theory Boot
  imports Turn_Bound
begin

text \<open>
  The boot succeeds when nothing goes wrong: on a kernel that answers every call of the boot
  with success, in bounded time and with no signal but SIGCHLD, the startup machine reaches
  \<open>Complete\<close> with both managers ready, in a number of turns given by the configuration.
\<close>

section \<open>A cooperative kernel\<close>

definition only_sigchld :: "('w, 'a) call \<Rightarrow> bool" where
  "only_sigchld c \<longleftrightarrow> (\<forall>w. set (fst (snd (snd (c w)))) \<subseteq> {SIGCHLD})"

text \<open>A call that delivers nothing and keeps \<open>K\<close> as long as \<open>K\<close> holds, and only SIGCHLD else.\<close>

definition boot_call :: "('w \<Rightarrow> bool) \<Rightarrow> ('w, 'a) call \<Rightarrow> bool" where
  "boot_call K c \<longleftrightarrow> only_sigchld c \<and>
     (\<forall>w. K w \<longrightarrow> fst (snd (snd (c w))) = [] \<and> K (snd (snd (snd (c w)))))"

text \<open>
  \<open>K\<close> stands for "no child process has ended yet". The kernel sends SIGCHLD when one ends, so
  running \<open>vsock-test\<close> may deliver SIGCHLD, at its end or later in any other call, and end
  \<open>K\<close>; no other call does, for the VM and the CA live on, and \<open>waitpid\<close> reports neither. No
  client connects. While \<open>K\<close> holds, \<open>poll\<close> waits for its whole timeout; afterwards it may
  return at any time, with the pipe readable or not, or fail because a signal interrupted it.
  Files exist and are large enough, log files open, processes start, \<open>vsock-test\<close> succeeds
  and the CA's port accepts.
\<close>

definition cooperative :: "('w \<Rightarrow> bool) \<Rightarrow> 'w os \<Rightarrow> bool" where
  "cooperative K os \<longleftrightarrow>
     boot_call K (os_tick os) \<and> (\<forall>ms. boot_call K (os_poll os ms)) \<and> (\<forall>c. boot_call K (os_spawn os c)) \<and>
     (\<forall>p. boot_call K (os_exists os p)) \<and> (\<forall>p. boot_call K (os_metadata os p)) \<and>
     (\<forall>p. boot_call K (os_open_append os p)) \<and> (\<forall>p. boot_call K (os_try_clone os p)) \<and>
     (\<forall>p q. boot_call K (os_rename os p q)) \<and> (\<forall>port n. boot_call K (os_connect os port n)) \<and>
     (\<forall>s n. boot_call K (os_http os s n)) \<and>
     (\<forall>c. only_sigchld (os_run os c)) \<and> only_sigchld (os_waitpid os) \<and>
     (\<forall>w. reported (fst (os_waitpid os w)) = None) \<and>
     (\<forall>ms w. (case fst (os_poll os ms w) of None \<Rightarrow> True | Some (client, _) \<Rightarrow> \<not> client) \<and>
        (K w \<longrightarrow> ms * ns_per_ms \<le> fst (snd (os_poll os ms w)))) \<and>
     (\<forall>c w. \<exists>p. fst (os_spawn os c w) = Inr p) \<and> (\<forall>c w. fst (os_run os c w)) \<and>
     (\<forall>p w. fst (os_exists os p w)) \<and> (\<forall>p w. \<exists>n. fst (os_metadata os p w) = Inr n \<and> min_image_bytes \<le> n) \<and>
     (\<forall>p w. fst (os_open_append os p w) = None) \<and> (\<forall>p w. fst (os_try_clone os p w) = None) \<and>
     (\<forall>port n w. fst (os_connect os port n w) = Inr ())"

text \<open>The self-pipe holds nothing but bytes of SIGCHLD; nothing at all while \<open>K\<close> holds.\<close>

definition only_chld :: "'w env \<Rightarrow> bool" where
  "only_chld e \<longleftrightarrow> set (sigpipe e) \<subseteq> {CHR ''C''}"

definition undisturbed :: "('w \<Rightarrow> bool) \<Rightarrow> 'w env \<Rightarrow> bool" where
  "undisturbed K e \<longleftrightarrow> sigpipe e = [] \<and> K (world e)"

definition boot_le :: "('w \<Rightarrow> bool) \<Rightarrow> 'w env \<Rightarrow> 'w env \<Rightarrow> bool" where
  "boot_le K e e' \<longleftrightarrow> (only_chld e \<longrightarrow> only_chld e') \<and> (undisturbed K e \<longrightarrow> undisturbed K e')"

lemma boot_le_refl [simp]: "boot_le K e e"
  by (simp add: boot_le_def)

lemma boot_le_trans [trans]: "boot_le K a b \<Longrightarrow> boot_le K b c \<Longrightarrow> boot_le K a c"
  by (simp add: boot_le_def)

lemma only_chld_sys:
  assumes "only_sigchld f" "only_chld e"
  shows "only_chld (snd (sys f evs e))"
proof -
  obtain a dt ss w where f: "f (world e) = (a, dt, ss, w)" by (cases "f (world e)")
  have ss: "set ss \<subseteq> {SIGCHLD}" using assms(1) f unfolding only_sigchld_def by (metis fst_conv snd_conv)
  let ?e1 = "e\<lparr>clock := clock e + dt, world := w\<rparr>"
  have "set (sigpipe (deliver ss ?e1)) \<subseteq> {CHR ''C''}"
    using ss assms(2) sigpipe_fold [of ?e1] sigpipe_fold_closed [of ?e1]
    by (cases "0 \<le> sig_pipe_fd e") (auto simp: deliver_def only_chld_def signal_byte_def)
  then show ?thesis by (simp add: sys_def only_chld_def f Let_def)
qed

lemma boot_sys:
  assumes "boot_call K f"
  shows "boot_le K e (snd (sys f evs e))"
proof -
  obtain a dt ss w where f: "f (world e) = (a, dt, ss, w)" by (cases "f (world e)")
  have "undisturbed K (snd (sys f evs e))" if "undisturbed K e"
  proof -
    have "ss = [] \<and> K w" using assms f that unfolding boot_call_def undisturbed_def by (metis fst_conv snd_conv)
    then show ?thesis using that by (simp add: sys_def deliver_def undisturbed_def f Let_def)
  qed
  moreover have "only_sigchld f" using assms by (simp add: boot_call_def)
  ultimately show ?thesis using only_chld_sys [of f e evs] by (simp add: boot_le_def)
qed

lemma cooperative_calls:
  assumes "cooperative K os"
  shows "boot_le K e (snd (instant_now os e))" "boot_le K e (snd (poll_fds os ms e))"
    "boot_le K e (snd (spawn os c e))" "only_chld e \<Longrightarrow> only_chld (snd (run_command os c e))"
    "boot_le K e (snd (path_exists os q e))" "boot_le K e (snd (metadata_len os q e))"
    "boot_le K e (snd (open_append os q e))" "boot_le K e (snd (try_clone os q e))"
    "boot_le K e (snd (rename os q q' e))" "boot_le K e (snd (connect_timeout os port n e))"
    "boot_le K e (http_exchange os req n e)"
    "only_chld e \<Longrightarrow> only_chld (snd (waitpid_nohang os e))"
    "reported (fst (waitpid_nohang os e)) = None"
    "case fst (poll_fds os ms e) of None \<Rightarrow> True | Some (client, _) \<Rightarrow> \<not> client"
    "undisturbed K e \<Longrightarrow> clock e + ms * ns_per_ms \<le> clock (snd (poll_fds os ms e))"
    "\<exists>p. fst (spawn os c e) = Inr p" "fst (run_command os c e)" "fst (path_exists os q e)"
    "\<exists>len. fst (metadata_len os q e) = Inr len \<and> min_image_bytes \<le> len"
    "fst (open_append os q e) = None" "fst (try_clone os q e) = None"
    "fst (connect_timeout os port n e) = Inr ()"
  using assms
  by (simp_all add: cooperative_def instant_now_def Let_def poll_fds_def spawn_def run_command_def
      path_exists_def metadata_len_def open_append_def try_clone_def rename_def connect_timeout_def
      http_exchange_def waitpid_nohang_def boot_sys only_chld_sys undisturbed_def env_simps)

section \<open>The operations of the boot succeed\<close>

lemma rotate_boot:
  assumes "cooperative K os"
  shows "boot_le K e (rotate_if_needed os q m e)"
  using cooperative_calls(6) [OF assms, of e q]
    boot_le_trans [OF cooperative_calls(6) [OF assms] cooperative_calls(9) [OF assms]]
  by (auto simp: rotate_if_needed_def case_prod_beta split: sum.split)

lemma spawn_with_log_succeeds:
  assumes "cooperative K os"
  shows "\<exists>p e'. spawn_with_log os cmd args envs lf cwd e = (Inr p, e') \<and> boot_le K e e'"
proof -
  let ?c = "\<lparr>c_prog = cmd, c_args = args, c_env = envs, c_log = Some lf, c_cwd = cwd\<rparr>"
  let ?e1 = "rotate_if_needed os lf max_log_bytes e"
  let ?e2 = "snd (open_append os lf ?e1)"
  let ?e3 = "snd (try_clone os lf ?e2)"
  obtain p where "fst (spawn os ?c ?e3) = Inr p" using cooperative_calls(16) [OF assms] by blast
  moreover have "boot_le K e (snd (spawn os ?c ?e3))"
  proof -
    have "boot_le K e ?e1" by (rule rotate_boot [OF assms])
    also have "boot_le K ?e1 ?e2" by (rule cooperative_calls(7) [OF assms])
    also have "boot_le K ?e2 ?e3" by (rule cooperative_calls(8) [OF assms])
    also have "boot_le K ?e3 (snd (spawn os ?c ?e3))" by (rule cooperative_calls(3) [OF assms])
    finally show ?thesis .
  qed
  ultimately show ?thesis using cooperative_calls(20,21) [OF assms]
    by (cases "spawn os ?c ?e3") (simp add: spawn_with_log_def Let_def case_prod_beta)
qed

lemma checks_succeed:
  assumes "cooperative K os"
  shows "\<exists>e'. check_present os dir ns e = (Inr (), e') \<and> boot_le K e e'"
    and "\<exists>e'. check_sizes os dir ns e = (Inr (), e') \<and> boot_le K e e'"
proof -
  show "\<exists>e'. check_present os dir ns e = (Inr (), e') \<and> boot_le K e e'"
  proof (induction ns arbitrary: e)
    case (Cons n ns)
    let ?e1 = "snd (path_exists os (path_join dir n) e)"
    obtain e' where "check_present os dir ns ?e1 = (Inr (), e')" "boot_le K ?e1 e'" using Cons by blast
    then show ?case
      using cooperative_calls(18) [OF assms] boot_le_trans [OF cooperative_calls(5) [OF assms]]
      by (auto simp: case_prod_beta)
  qed simp
  show "\<exists>e'. check_sizes os dir ns e = (Inr (), e') \<and> boot_le K e e'"
  proof (induction ns arbitrary: e)
    case (Cons n ns)
    obtain len where len: "fst (metadata_len os (path_join dir n) e) = Inr len" "min_image_bytes \<le> len"
      using cooperative_calls(19) [OF assms] by blast
    obtain e1 where m: "metadata_len os (path_join dir n) e = (Inr len, e1)" using len(1) by (metis prod.collapse)
    obtain e' where e': "check_sizes os dir ns e1 = (Inr (), e')" "boot_le K e1 e'" using Cons by blast
    have "boot_le K e e1" using cooperative_calls(6) [OF assms, of e "path_join dir n"] m by simp
    then show ?case using m e' len(2) boot_le_trans by (auto simp: not_less)
  qed simp
qed

lemma vm_start_succeeds:
  assumes "cooperative K os"
  shows "\<exists>p e'. vm_start cfg os m e = (Inr (), m\<lparr>vm_state := Vm_Booting, vm_child_pid := Some p\<rparr>, e') \<and>
    boot_le K e e'"
proof -
  obtain e0 where c: "check_present os (image_dir cfg) required_images e = (Inr (), e0)" "boot_le K e e0"
    using checks_succeed(1) [OF assms] by blast
  obtain e1 where "check_sizes os (image_dir cfg) sized_images e0 = (Inr (), e1)" "boot_le K e0 e1"
    using checks_succeed(2) [OF assms] by blast
  with c have v: "validate_images cfg os e = (Inr (), e1)" "boot_le K e e1"
    using boot_le_trans by (auto simp: validate_images_def)
  obtain p e' where "spawn_with_log os (path_join (image_dir cfg) ''pvm-manage'') (vm_args cfg)
      [(''HOME'', image_dir cfg)] (path_join (log_dir cfg) ''pvm.log'') (Some (image_dir cfg)) e1 = (Inr p, e')"
    "boot_le K e1 e'" using spawn_with_log_succeeds [OF assms] by blast
  then show ?thesis using v boot_le_trans
    by (intro exI [of _ p] exI [of _ e']) (auto simp: vm_start_def Let_def)
qed

lemma ca_start_succeeds:
  assumes "cooperative K os"
  shows "\<exists>p e'. ca_start cfg cid os m e = (Inr (), m\<lparr>ca_state := Ca_Running, ca_child_pid := Some p\<rparr>, e') \<and>
    boot_le K e e'"
proof -
  obtain e1 where v: "path_exists os (ca_binary cfg) e = (True, e1)" "boot_le K e e1"
    using cooperative_calls(5,18) [OF assms] by (metis (full_types) prod.collapse)
  obtain p e' where "spawn_with_log os (ca_binary cfg) (ca_args cfg) (ca_env cfg cid)
      (path_join (log_dir cfg) ''ca.log'') None e1 = (Inr p, e')"
    "boot_le K e1 e'" using spawn_with_log_succeeds [OF assms] by blast
  then show ?thesis using v boot_le_trans
    by (intro exI [of _ p] exI [of _ e']) (auto simp: ca_start_def Let_def)
qed

lemma port_connects:
  assumes "cooperative K os"
  shows "\<exists>e'. connect_timeout os port n e = (Inr (), e') \<and> boot_le K e e'"
  using cooperative_calls(10,22) [OF assms, where port = port and n = n and e = e] by (metis prod.collapse)

lemma now_boot:
  assumes "cooperative K os"
  shows "\<exists>now e'. instant_now os e = (now, e') \<and> now = clock e' \<and> clock e \<le> now \<and> boot_le K e e'"
  using cooperative_calls(1) [OF assms, of e] instant_now_fst [of os e] instant_now_ge [of e os]
  by (cases "instant_now os e") simp

lemma health_check_succeeds:
  assumes "cooperative K os" "prompt os T"
  shows "\<exists>h' lh' e'. health_check cfg os h ca lh e = Some (h', ca, lh', e') \<and> boot_le K e e' \<and>
    within (4 * T) e e'"
proof -
  obtain now e1 where n: "instant_now os e = (now, e1)" "boot_le K e e1"
    using now_boot [OF assms(1)] by blast
  obtain ec where c: "connect_timeout os (hm_port h) 2 e1 = (Inr (), ec)" "boot_le K e1 ec"
    using port_connects [OF assms(1)] by blast
  let ?e2 = "http_exchange os health_request 256 ec"
  obtain h1 where p: "health_probe os h e1 = (HealthOk, h1, ?e2)" using c by (simp add: health_probe_def)
  have s: "boot_le K e ?e2"
    by (rule boot_le_trans [OF boot_le_trans [OF n(2) c(2)] cooperative_calls(11) [OF assms(1)]])
  have w1: "within T e e1" using within_calls(1) [OF assms(2), of e] n by simp
  have w2: "within (3 * T) e ?e2" by (rule within_trans [OF w1 within_probe [OF assms(2) p]]) simp
  obtain l1 f1 where l1: "instant_now os e1 = (l1, f1)" "boot_le K e1 f1"
    using now_boot [OF assms(1)] by blast
  obtain l2 f2 where l2: "instant_now os ?e2 = (l2, f2)" "boot_le K ?e2 f2"
    using now_boot [OF assms(1)] by blast
  have "within T e1 f1" "within T ?e2 f2"
    using within_calls(1) [OF assms(2), of e1] within_calls(1) [OF assms(2), of ?e2] l1(1) l2(1) by simp_all
  then have "within (4 * T) e f1" "within (4 * T) e f2" "within (4 * T) e e1"
    using w1 w2 by (simp_all add: within_def)
  moreover have "boot_le K e f1" "boot_le K e f2"
    using boot_le_trans [OF n(2) l1(2)] boot_le_trans [OF s l2(2)] by simp_all
  ultimately show ?thesis using n p l1(1) l2(1) by (simp add: health_check_def)
qed

section \<open>A turn of the boot\<close>

lemma resets_boot:
  assumes "cooperative K os" "prompt os T"
  shows "\<exists>vm' e'. vm_maybe_reset_crash_count os vm e = (vm', e') \<and> boot_le K e e' \<and> within T e e' \<and>
      vm_state vm' = vm_state vm \<and> vm_child_pid vm' = vm_child_pid vm"
    and "\<exists>ca' e'. ca_maybe_reset_crash_count os ca e = (ca', e') \<and> boot_le K e e' \<and> within T e e' \<and>
      ca_state ca' = ca_state ca \<and> ca_child_pid ca' = ca_child_pid ca"
proof -
  have w: "within T e (snd (instant_now os e))" by (rule within_calls(1) [OF assms(2)])
  show "\<exists>vm' e'. vm_maybe_reset_crash_count os vm e = (vm', e') \<and> boot_le K e e' \<and> within T e e' \<and>
      vm_state vm' = vm_state vm \<and> vm_child_pid vm' = vm_child_pid vm"
    using w cooperative_calls(1) [OF assms(1), of e]
    by (auto simp: vm_maybe_reset_crash_count_def case_prod_beta Let_def split: option.split)
  show "\<exists>ca' e'. ca_maybe_reset_crash_count os ca e = (ca', e') \<and> boot_le K e e' \<and> within T e e' \<and>
      ca_state ca' = ca_state ca \<and> ca_child_pid ca' = ca_child_pid ca"
    using w cooperative_calls(1) [OF assms(1), of e]
    by (auto simp: ca_maybe_reset_crash_count_def case_prod_beta Let_def split: option.split)
qed

text \<open>Reading the pipe: SIGCHLD makes the daemon look for dead children, and there are none.\<close>

lemma check_signals_boot:
  assumes "cooperative K os" "prompt os T" "only_chld e"
  shows "\<exists>e'. check_signals cfg os vm ca e = Some (False, vm, ca, e') \<and> only_chld e' \<and> within T e e'"
proof -
  let ?e1 = "snd (read_sigpipe 64 e)"
  have r: "fst (read_sigpipe 64 e) = take 64 (sigpipe e)" by (simp add: read_sigpipe_def)
  have T: "CHR ''T'' \<notin> set (take 64 (sigpipe e))"
    using assms(3) by (auto simp: only_chld_def dest: in_set_takeD)
  have o1: "only_chld ?e1" "within 0 e ?e1"
    using assms(3) by (auto simp: only_chld_def read_sigpipe_def within_def dest: in_set_dropD)
  obtain st e2 where w: "waitpid_nohang os ?e1 = (st, e2)" by fastforce
  have "reported st = None" "only_chld e2" "within T ?e1 e2"
    using cooperative_calls(12) [OF assms(1) o1(1)] cooperative_calls(13) [OF assms(1), of ?e1]
      within_calls(16) [OF assms(2), of ?e1] w by simp_all
  then have "reap_children cfg os vm ca ?e1 = Some (False, vm, ca, e2)" "only_chld e2" "within T e e2"
    using o1(2) by (simp_all add: reap_children_def reap_loop_step [OF w] within_def)
  then show ?thesis using T o1 r
    by (auto simp: check_signals_def case_prod_beta within_def Let_def)
qed

text \<open>What holds between the turns of such a boot.\<close>

definition quiet_boot :: "daemon \<Rightarrow> 'w env \<Rightarrow> bool" where
  "quiet_boot d e \<longleftrightarrow> only_chld e \<and> vm_inv (d_vm d) \<and> ca_inv (d_ca d)"

abbreviation same_vm :: "vm_manager \<Rightarrow> vm_manager \<Rightarrow> bool" where
  "same_vm vm vm' \<equiv> vm_state vm' = vm_state vm \<and> vm_child_pid vm' = vm_child_pid vm"

abbreviation same_ca :: "ca_manager \<Rightarrow> ca_manager \<Rightarrow> bool" where
  "same_ca ca ca' \<equiv> ca_state ca' = ca_state ca \<and> ca_child_pid ca' = ca_child_pid ca"

text \<open>The beginning of a turn: \<open>poll\<close>, and the pipe if it is readable.\<close>

lemma boot_poll:
  assumes "cooperative K os" "prompt os T" "only_chld e"
  obtains now e1 ready e2 e3 where "instant_now os e = (now, e1)" "poll_fds os ms e1 = (ready, e2)"
    and "(if sig_ready e1 ready e2 then check_signals cfg os vm ca e2 else Some (False, vm, ca, e2))
      = Some (False, vm, ca, e3)"
    and "ready = None \<or> (\<exists>s. ready = Some (False, s))" "boot_le K e e3" "clock e \<le> clock e3"
    and "clock e3 \<le> clock e + ms * ns_per_ms + 3 * T"
    and "undisturbed K e \<Longrightarrow> clock e + ms * ns_per_ms \<le> clock e3"
proof -
  obtain now e1 where n: "instant_now os e = (now, e1)" "now = clock e1" "clock e \<le> now" "boot_le K e e1"
    using now_boot [OF assms(1)] by blast
  obtain ready e2 where q: "poll_fds os ms e1 = (ready, e2)" by fastforce
  have r: "ready = None \<or> (\<exists>s. ready = Some (False, s))"
    using cooperative_calls(14) [OF assms(1), of ms e1] q by (auto split: option.splits)
  have b: "boot_le K e e2"
    using boot_le_trans [OF n(4) cooperative_calls(2) [OF assms(1), of e1 ms]] q by simp
  then have o2: "only_chld e2" using assms(3) by (simp add: boot_le_def)
  obtain f where f: "check_signals cfg os vm ca e2 = Some (False, vm, ca, f)" "only_chld f" "within T e2 f"
    using check_signals_boot [OF assms(1,2) o2] by blast
  have w: "within T e e1" "within (ms * ns_per_ms + T) e1 e2"
    using within_calls(1) [OF assms(2), of e] within_calls(18) [OF assms(2), of ms e1] n(1) q by simp_all
  have c: "clock e \<le> clock e2" "clock e2 \<le> clock f"
    using n(2,3) sys_facts(2) [OF q [unfolded poll_fds_def]] check_signals_clock [OF f(1)] by simp_all
  have u: "\<not> sig_ready e1 ready e2 \<and> clock e + ms * ns_per_ms \<le> clock e2" if "undisturbed K e"
  proof -
    have "undisturbed K e1" "undisturbed K e2" using that n(4) b by (simp_all add: boot_le_def)
    then show ?thesis using cooperative_calls(15) [OF assms(1), of e1 ms] q n(2,3)
      by (auto simp: undisturbed_def sig_ready_def split: option.split)
  qed
  show thesis
  proof (cases "sig_ready e1 ready e2")
    case True
    then have "\<not> undisturbed K e" using u by blast
    then have "boot_le K e f" using f(2) by (simp add: boot_le_def)
    then show thesis using that [OF n(1) q] True f(1,3) r w c \<open>\<not> undisturbed K e\<close> by (simp add: within_def)
  next
    case False
    then show thesis using that [OF n(1) q] False r b w c u by (simp add: within_def)
  qed
qed

text \<open>
  A turn waits in \<open>poll\<close>, makes the step of the startup machine, and does nothing else that
  shows in the phase or in the managers' states.
\<close>

lemma boot_turn:
  assumes "cooperative K os" "prompt os T" "quiet_boot d e"
  obtains (turn) ms e2 where "ms = unat (poll_timeout (d_phase d)
      (health_interval cfg - elapsed (fst (instant_now os e)) (d_last_health d)))"
    and "boot_le K e e2" and "undisturbed K e \<Longrightarrow> clock e + ms * ns_per_ms \<le> clock e2" and "clock e \<le> clock e2"
    and "clock e2 \<le> clock e + ms * ns_per_ms + 3 * T"
    and "\<And>ph vm ca e5. startup_match cfg os (d_phase d) (d_vm d) (d_ca d) e2 = Some (ph, vm, ca, e5) \<Longrightarrow>
      only_chld e5 \<Longrightarrow> \<exists>d' e'. main_iter js cfg os t d e = Some (False, d', e') \<and> quiet_boot d' e' \<and>
        boot_le K e5 e' \<and> clock e5 \<le> clock e' \<and> clock e' \<le> clock e5 + 6 * T \<and> d_phase d' = ph \<and>
        same_vm vm (d_vm d') \<and> same_ca ca (d_ca d')"
proof -
  let ?ms = "unat (poll_timeout (d_phase d)
      (health_interval cfg - elapsed (fst (instant_now os e)) (d_last_health d)))"
  have "only_chld e" using assms(3) by (simp add: quiet_boot_def)
  then obtain now e1 ready ep e2 where n: "instant_now os e = (now, e1)" and q: "poll_fds os ?ms e1 = (ready, ep)"
    and s: "(if sig_ready e1 ready ep then check_signals cfg os (d_vm d) (d_ca d) ep
      else Some (False, d_vm d, d_ca d, ep)) = Some (False, d_vm d, d_ca d, e2)"
    and r: "ready = None \<or> (\<exists>s. ready = Some (False, s))"
    and e2: "boot_le K e e2" "clock e \<le> clock e2" "clock e2 \<le> clock e + ?ms * ns_per_ms + 3 * T"
      "undisturbed K e \<Longrightarrow> clock e + ?ms * ns_per_ms \<le> clock e2"
    using boot_poll [OF assms(1,2)] by blast
  have turn: "\<exists>d' e'. main_iter js cfg os t d e = Some (False, d', e') \<and> quiet_boot d' e' \<and>
        boot_le K e5 e' \<and> clock e5 \<le> clock e' \<and> clock e' \<le> clock e5 + 6 * T \<and> d_phase d' = ph \<and>
        same_vm vm (d_vm d') \<and> same_ca ca (d_ca d')"
    if m: "startup_match cfg os (d_phase d) (d_vm d) (d_ca d) e2 = Some (ph, vm, ca, e5)" and o5: "only_chld e5"
    for ph vm ca e5
  proof -
    have a: "advance_startup cfg os (d_phase d) (d_vm d) (d_ca d) e2 = Some (ph, vm, ca, e5)"
      using assms(3) m by (simp add: quiet_boot_def advance_startup_match)
    obtain h lh e6 where h: "health_check cfg os (d_health d) ca (d_last_health d) e5 = Some (h, ca, lh, e6)"
      "boot_le K e5 e6" "within (4 * T) e5 e6" using health_check_succeeds [OF assms(1,2)] by blast
    obtain vm4 e7 where v: "vm_maybe_reset_crash_count os vm e6 = (vm4, e7)" "boot_le K e6 e7"
      "within T e6 e7" "same_vm vm vm4" using resets_boot(1) [OF assms(1,2)] by blast
    obtain ca5 e8 where c: "ca_maybe_reset_crash_count os ca e7 = (ca5, e8)" "boot_le K e7 e8"
      "within T e7 e8" "same_ca ca ca5" using resets_boot(2) [OF assms(1,2)] by blast
    let ?d = "\<lparr>d_vm = vm4, d_ca = ca5, d_health = h, d_phase = ph, d_last_health = lh\<rparr>"
    have i: "main_iter js cfg os t d e = Some (False, ?d, e8)"
      using n q s r a h(1) v(1) c(1) by (auto simp: main_iter_def Let_def)
    have "vm_inv (d_vm ?d) \<and> ca_inv (d_ca ?d)"
      using wf.iter_kept [OF i] assms(3) by (simp add: quiet_boot_def)
    moreover have b: "boot_le K e5 e8" by (rule boot_le_trans [OF boot_le_trans [OF h(2) v(2)] c(2)])
    moreover have "only_chld e8" using b o5 by (simp add: boot_le_def)
    moreover have "clock e5 \<le> clock e8"
      using health_check_env [OF h(1)] vm_maybe_reset_env [of e6 os vm]
        ca_maybe_reset_env [of e7 os ca] v(1) c(1) by (simp add: op_le_def)
    ultimately show ?thesis using i h(3) v(3,4) c(3,4) by (simp add: quiet_boot_def within_def)
  qed
  show thesis by (rule that [OF refl e2(1,4,2,3) turn])
qed

section \<open>The phases in turn\<close>

lemma turn_vm_starting:
  assumes "cooperative K os" "prompt os T" "quiet_boot d e" "undisturbed K e" "d_phase d = VmStarting"
    and f: "fits (longest_wait cfg) (10 * ns_per_sec + 16 * T) e"
  shows "\<exists>d' e' b. main_iter js cfg os t d e = Some (False, d', e') \<and> quiet_boot d' e' \<and> undisturbed K e' \<and>
    d_phase d' = WaitingVsock (b + unat (vsock_probe_delay_secs cfg + vm_boot_timeout_secs cfg) * ns_per_sec) b False \<and>
    vm_child_pid (d_vm d') \<noteq> None \<and>
    clock e \<le> b \<and> b \<le> clock e' \<and> clock e' \<le> b + 6 * T \<and> clock e' \<le> clock e + 10 * ns_per_sec + 22 * T"
proof (cases rule: boot_turn [OF assms(1-3), where cfg = cfg and js = js and t = t])
  case (1 ms e2)
  note ms = 1(1) and e2 = 1(2,4,5) and step = 1(6)
  have "ms * ns_per_ms \<le> 10000 * ns_per_ms" unfolding ms by (intro mult_le_mono1 poll_timeout_range)
  then have c2: "clock e2 \<le> clock e + 10 * ns_per_sec + 3 * T"
    using e2(3) by (simp add: ns_per_ms_def ns_per_sec_def)
  obtain p e3 where s: "vm_start cfg os (d_vm d) e2 =
      (Inr (), (d_vm d)\<lparr>vm_state := Vm_Booting, vm_child_pid := Some p\<rparr>, e3)" "boot_le K e2 e3"
    using vm_start_succeeds [OF assms(1)] by blast
  obtain now e5 where n: "instant_now os e3 = (now, e5)" "now = clock e5" "clock e3 \<le> now" "boot_le K e3 e5"
    using now_boot [OF assms(1)] by blast
  have b5: "boot_le K e e5" by (rule boot_le_trans [OF boot_le_trans [OF e2(1) s(2)] n(4)])
  then have o5: "only_chld e5" "undisturbed K e5"
    using assms(3,4) by (simp_all add: boot_le_def quiet_boot_def)
  have "within (12 * T) e2 e3" "within T e3 e5"
    using within_vm_start [OF assms(2) s(1)] within_calls(1) [OF assms(2), of e3] n(1) by simp_all
  then have c5: "clock e5 \<le> clock e + 10 * ns_per_sec + 16 * T" using c2 by (simp add: within_def)
  have mono: "clock e \<le> clock e5"
    using e2(2) vm_start_env [OF s(1)] n(2,3) by (simp add: op_le_def)
  have "fits (longest_wait cfg) 0 e5" using f c5 by (simp add: fits_def)
  then obtain dl where dl: "instant_add now (vsock_probe_delay_secs cfg + vm_boot_timeout_secs cfg) = Some dl"
    using fits_deadline longest_wait_ge(2) n(2) by blast
  have dl': "dl = now + unat (vsock_probe_delay_secs cfg + vm_boot_timeout_secs cfg) * ns_per_sec"
    using instant_add_SomeD [OF dl] by blast
  have "startup_match cfg os (d_phase d) (d_vm d) (d_ca d) e2 = Some (WaitingVsock dl now False,
      (d_vm d)\<lparr>vm_state := Vm_Booting, vm_child_pid := Some p\<rparr>, d_ca d, e5)"
    using assms(5) s(1) n(1) dl by (simp add: startup_match_def)
  from step [OF this o5(1)] obtain d' e' where "main_iter js cfg os t d e = Some (False, d', e')" "quiet_boot d' e'"
    "boot_le K e5 e'" "clock e5 \<le> clock e'" "clock e' \<le> clock e5 + 6 * T" "d_phase d' = WaitingVsock dl now False"
    "vm_child_pid (d_vm d') = Some p" by auto
  then show ?thesis using n(2) mono c5 dl' o5(2)
    by (intro exI [of _ d'] exI [of _ e'] exI [of _ now]) (simp add: boot_le_def)
qed

lemma turn_delay:
  assumes "cooperative K os" "prompt os T" "quiet_boot d e" "undisturbed K e" "d_phase d = WaitingVsock dl b False"
  shows "\<exists>d' e' now. main_iter js cfg os t d e = Some (False, d', e') \<and> quiet_boot d' e' \<and> undisturbed K e' \<and>
    d_phase d' = WaitingVsock dl b (unat (vsock_probe_delay_secs cfg) * ns_per_sec \<le> now - b) \<and>
    same_vm (d_vm d) (d_vm d') \<and> clock e + ns_per_sec \<le> now \<and> now \<le> clock e + ns_per_sec + 4 * T \<and>
    now \<le> clock e' \<and> clock e' \<le> now + 6 * T"
proof (cases rule: boot_turn [OF assms(1-3), where cfg = cfg and js = js and t = t])
  case (1 ms e2)
  note ms = 1(1) and e2 = 1(2) 1(3) [OF assms(4)] 1(5) and step = 1(6)
  have m: "ms * ns_per_ms = ns_per_sec"
    using assms(5) by (simp add: ms unat_poll_timeout poll_timeout_ms_def ns_per_ms_def ns_per_sec_def)
  obtain now e5 where n: "instant_now os e2 = (now, e5)" "now = clock e5" "clock e2 \<le> now" "boot_le K e2 e5"
    using now_boot [OF assms(1)] by blast
  have o5: "only_chld e5" "undisturbed K e5"
    using boot_le_trans [OF e2(1) n(4)] assms(3,4) by (simp_all add: boot_le_def quiet_boot_def)
  have w: "within T e2 e5" using within_calls(1) [OF assms(2), of e2] n(1) by simp
  have "startup_match cfg os (d_phase d) (d_vm d) (d_ca d) e2 =
      Some (WaitingVsock dl b (unat (vsock_probe_delay_secs cfg) * ns_per_sec \<le> now - b), d_vm d, d_ca d, e5)"
    using assms(5) n(1) by (simp add: startup_match_def elapsed_def)
  from step [OF this o5(1)] obtain d' e' where "main_iter js cfg os t d e = Some (False, d', e')" "quiet_boot d' e'"
    "boot_le K e5 e'" "clock e5 \<le> clock e'" "clock e' \<le> clock e5 + 6 * T" "same_vm (d_vm d) (d_vm d')"
    "d_phase d' = WaitingVsock dl b (unat (vsock_probe_delay_secs cfg) * ns_per_sec \<le> now - b)"
    by auto
  then show ?thesis using n(2,3) e2(2,3) w m o5(2)
    by (intro exI [of _ d'] exI [of _ e'] exI [of _ now]) (simp add: within_def boot_le_def)
qed

lemma turn_probe:
  assumes "cooperative K os" "prompt os T" "quiet_boot d e" "d_phase d = WaitingVsock dl b True"
    and dl: "clock e + 2 * ns_per_sec + 4 * T \<le> dl"
  shows "\<exists>d' e'. main_iter js cfg os t d e = Some (False, d', e') \<and> quiet_boot d' e' \<and>
    d_phase d' = CaStarting \<and> vm_state (d_vm d') = Vm_Ready \<and> vm_child_pid (d_vm d') = vm_child_pid (d_vm d) \<and>
    clock e' \<le> clock e + 2 * ns_per_sec + 12 * T"
proof (cases rule: boot_turn [OF assms(1-3), where cfg = cfg and js = js and t = t])
  case (1 ms e2)
  note ms = 1(1) and e2 = 1(2,4,5) and step = 1(6)
  have m: "ms * ns_per_ms = 2 * ns_per_sec"
    using assms(4) by (simp add: ms unat_poll_timeout poll_timeout_ms_def ns_per_ms_def ns_per_sec_def)
  obtain now e3 where n: "instant_now os e2 = (now, e3)" "now = clock e3" "boot_le K e2 e3"
    using now_boot [OF assms(1)] by blast
  have o3: "only_chld e3" using boot_le_trans [OF e2(1) n(3)] assms(3) by (simp add: boot_le_def quiet_boot_def)
  obtain e4 where p: "probe_vsock cfg os e3 = (True, e4)" "only_chld e4"
    using cooperative_calls(4) [OF assms(1) o3] cooperative_calls(17) [OF assms(1), of "vsock_test cfg" e3]
    unfolding probe_vsock_def by (metis (full_types) prod.collapse)
  obtain vm e5 where v: "vm_set_state os Vm_Ready (d_vm d) e4 = (vm, e5)" "boot_le K e4 e5"
    "vm_state vm = Vm_Ready" "vm_child_pid vm = vm_child_pid (d_vm d)"
    using cooperative_calls(1) [OF assms(1), of e4] by (simp add: vm_set_state_def case_prod_beta Let_def)
  have w: "within T e2 e3" "within T e3 e4" "within T e4 e5"
    using within_calls(1) [OF assms(2), of e2] within_calls(17) [OF assms(2), of e3 cfg]
      within_set_ready(1) [OF assms(2), of e4 Vm_Ready "d_vm d"] n(1) p(1) v(1) by simp_all
  have "\<not> dl < now" using w(1) e2(3) m n(2) dl by (simp add: within_def)
  then have "startup_match cfg os (d_phase d) (d_vm d) (d_ca d) e2 = Some (CaStarting, vm, d_ca d, e5)"
    using assms(4) n(1) p(1) v(1) by (simp add: startup_match_def)
  moreover have "only_chld e5" using p(2) v(2) by (simp add: boot_le_def)
  ultimately obtain d' e' where "main_iter js cfg os t d e = Some (False, d', e')" "quiet_boot d' e'"
    "clock e' \<le> clock e5 + 6 * T" "same_vm vm (d_vm d')" "d_phase d' = CaStarting"
    using step by blast
  then show ?thesis using e2(3) w m v(3,4) by (intro exI [of _ d'] exI [of _ e']) (simp add: within_def)
qed

lemma turn_ca_starting:
  assumes "cooperative K os" "prompt os T" "quiet_boot d e" "d_phase d = CaStarting"
    and f: "fits (longest_wait cfg) (10 * ns_per_sec + 10 * T) e"
  shows "\<exists>d' e' dl. main_iter js cfg os t d e = Some (False, d', e') \<and> quiet_boot d' e' \<and>
    d_phase d' = WaitingCaPort dl \<and> same_vm (d_vm d) (d_vm d') \<and> ca_child_pid (d_ca d') \<noteq> None \<and>
    clock e' \<le> clock e + 10 * ns_per_sec + 16 * T"
proof (cases rule: boot_turn [OF assms(1-3), where cfg = cfg and js = js and t = t])
  case (1 ms e2)
  note ms = 1(1) and e2 = 1(2,4,5) and step = 1(6)
  have "ms * ns_per_ms \<le> 10000 * ns_per_ms" unfolding ms by (intro mult_le_mono1 poll_timeout_range)
  then have c2: "clock e2 \<le> clock e + 10 * ns_per_sec + 3 * T"
    using e2(3) by (simp add: ns_per_ms_def ns_per_sec_def)
  obtain p e3 where s: "ca_start cfg (vsock_cid cfg) os (d_ca d) e2 =
      (Inr (), (d_ca d)\<lparr>ca_state := Ca_Running, ca_child_pid := Some p\<rparr>, e3)" "boot_le K e2 e3"
    using ca_start_succeeds [OF assms(1)] by blast
  obtain now e5 where n: "instant_now os e3 = (now, e5)" "now = clock e5" "boot_le K e3 e5"
    using now_boot [OF assms(1)] by blast
  have o5: "only_chld e5"
    using boot_le_trans [OF boot_le_trans [OF e2(1) s(2)] n(3)] assms(3) by (simp add: boot_le_def quiet_boot_def)
  have "within (6 * T) e2 e3" "within T e3 e5"
    using within_ca_start [OF assms(2) s(1)] within_calls(1) [OF assms(2), of e3] n(1) by simp_all
  then have c5: "clock e5 \<le> clock e + 10 * ns_per_sec + 10 * T" using c2 by (simp add: within_def)
  then have "fits (longest_wait cfg) 0 e5" using f by (simp add: fits_def)
  then obtain dl where dl: "instant_add now (ca_ready_timeout_secs cfg) = Some dl"
    using fits_deadline longest_wait_ge(3) n(2) by blast
  have "startup_match cfg os (d_phase d) (d_vm d) (d_ca d) e2 = Some (WaitingCaPort dl, d_vm d,
      (d_ca d)\<lparr>ca_state := Ca_Running, ca_child_pid := Some p\<rparr>, e5)"
    using assms(4) s(1) n(1) dl by (simp add: startup_match_def)
  from step [OF this o5] obtain d' e' where "main_iter js cfg os t d e = Some (False, d', e')" "quiet_boot d' e'"
    "clock e' \<le> clock e5 + 6 * T" "d_phase d' = WaitingCaPort dl" "same_vm (d_vm d) (d_vm d')"
    "ca_child_pid (d_ca d') = Some p" by auto
  then show ?thesis using c5 by (intro exI [of _ d'] exI [of _ e'] exI [of _ dl]) simp
qed

lemma turn_port:
  assumes "cooperative K os" "prompt os T" "quiet_boot d e" "d_phase d = WaitingCaPort dl"
  shows "\<exists>d' e'. main_iter js cfg os t d e = Some (False, d', e') \<and> quiet_boot d' e' \<and>
    d_phase d' = Complete \<and> same_vm (d_vm d) (d_vm d') \<and> ca_state (d_ca d') = Ca_Ready \<and>
    ca_child_pid (d_ca d') = ca_child_pid (d_ca d) \<and> clock e' \<le> clock e + ns_per_sec + 12 * T"
proof (cases rule: boot_turn [OF assms(1-3), where cfg = cfg and js = js and t = t])
  case (1 ms e2)
  note ms = 1(1) and e2 = 1(2,4,5) and step = 1(6)
  have m: "ms * ns_per_ms \<le> ns_per_sec"
    using assms(4) by (simp add: ms unat_poll_timeout poll_timeout_ms_def ns_per_ms_def ns_per_sec_def)
  obtain ec where c: "connect_timeout os (ca_port cfg) 1 e2 = (Inr (), ec)" "boot_le K e2 ec"
    using port_connects [OF assms(1)] by blast
  let ?e3 = "http_exchange os (probe_request ''teeproxyd-probe'') 64 ec"
  have p: "is_port_ready cfg os e2 = (True, ?e3)" using c(1) by (simp add: is_port_ready_def)
  have s: "boot_le K e ?e3"
    by (rule boot_le_trans [OF boot_le_trans [OF e2(1) c(2)] cooperative_calls(11) [OF assms(1)]])
  obtain ca e5 where v: "ca_set_state os Ca_Ready (d_ca d) ?e3 = (ca, e5)" "boot_le K ?e3 e5"
    "ca_state ca = Ca_Ready" "ca_child_pid ca = ca_child_pid (d_ca d)"
    using cooperative_calls(1) [OF assms(1), of ?e3] by (simp add: ca_set_state_def case_prod_beta Let_def)
  have o5: "only_chld e5" using boot_le_trans [OF s v(2)] assms(3) by (simp add: boot_le_def quiet_boot_def)
  have w: "within (2 * T) e2 ?e3" "within T ?e3 e5"
    using within_port [OF assms(2), of e2 cfg] within_set_ready(2) [OF assms(2), of ?e3 Ca_Ready "d_ca d"] p v(1)
    by simp_all
  have "startup_match cfg os (d_phase d) (d_vm d) (d_ca d) e2 = Some (Complete, d_vm d, ca, e5)"
    using assms(4) p v(1) by (simp add: startup_match_def)
  from step [OF this o5] obtain d' e' where "main_iter js cfg os t d e = Some (False, d', e')" "quiet_boot d' e'"
    "clock e' \<le> clock e5 + 6 * T" "same_vm (d_vm d) (d_vm d')" "same_ca ca (d_ca d')" "d_phase d' = Complete"
    by auto
  then show ?thesis using e2(3) w m v(3,4) by (intro exI [of _ d'] exI [of _ e']) (simp add: within_def)
qed

section \<open>The delay, and the whole boot\<close>

lemma run_turns_add:
  assumes "run_turns js cfg os t m d e = Some (d1, e1)"
  shows "run_turns js cfg os t (m + n) d e = run_turns js cfg os t n d1 e1"
  using assms by (induction m arbitrary: d e) (auto split: option.splits bool.splits)

lemma run_turns_one: "main_iter js cfg os t d e = Some (False, d1, e1) \<Longrightarrow> run_turns js cfg os t 1 d e = Some (d1, e1)"
  by simp

text \<open>
  Each turn of the delay takes at least a second, so after \<open>k\<close> of them at most
  \<open>delay - k\<close> are left, and at least one.
\<close>

lemma delay_ends:
  assumes "cooperative K os" "prompt os T"
  shows "quiet_boot d e \<Longrightarrow> undisturbed K e \<Longrightarrow> d_phase d = WaitingVsock dl b False \<Longrightarrow> b + k * ns_per_sec \<le> clock e \<Longrightarrow>
    clock e \<le> b + unat (vsock_probe_delay_secs cfg) * ns_per_sec + 6 * T \<Longrightarrow>
    unat (vsock_probe_delay_secs cfg) \<le> k + Suc m \<Longrightarrow>
    \<exists>n d' e'. n \<le> Suc m \<and> run_turns js cfg os t n d e = Some (d', e') \<and> quiet_boot d' e' \<and>
      d_phase d' = WaitingVsock dl b True \<and> vm_child_pid (d_vm d') = vm_child_pid (d_vm d) \<and>
      clock e' \<le> b + unat (vsock_probe_delay_secs cfg) * ns_per_sec + ns_per_sec + 16 * T"
proof (induction m arbitrary: k d e)
  case (Suc m)
  let ?D = "unat (vsock_probe_delay_secs cfg) * ns_per_sec"
  obtain d1 e1 now where i: "main_iter js cfg os t d e = Some (False, d1, e1)" "quiet_boot d1 e1"
    "d_phase d1 = WaitingVsock dl b (?D \<le> now - b)" "same_vm (d_vm d) (d_vm d1)"
    "clock e + ns_per_sec \<le> now" "now \<le> clock e + ns_per_sec + 4 * T" "now \<le> clock e1" "clock e1 \<le> now + 6 * T"
    "undisturbed K e1"
    using turn_delay [OF assms Suc.prems(1-3)] by blast
  show ?case
  proof (cases "?D \<le> now - b")
    case True
    then show ?thesis using i Suc.prems(5) run_turns_one [OF i(1)]
      by (intro exI [of _ 1] exI [of _ d1] exI [of _ e1]) simp
  next
    case False
    have "b + Suc k * ns_per_sec \<le> clock e1" using Suc.prems(4) i(5,7) by simp
    moreover have "clock e1 \<le> b + ?D + 6 * T" using False i(8) by simp
    ultimately obtain n d' e' where r: "n \<le> Suc m" "run_turns js cfg os t n d1 e1 = Some (d', e')" "quiet_boot d' e'"
      "d_phase d' = WaitingVsock dl b True" "vm_child_pid (d_vm d') = vm_child_pid (d_vm d1)"
      "clock e' \<le> b + ?D + ns_per_sec + 16 * T"
      using Suc.IH [of d1 e1 "Suc k"] i(2,3,9) False Suc.prems(6) by auto
    then show ?thesis using i(1,4) by (intro exI [of _ "Suc n"] exI [of _ d'] exI [of _ e']) simp
  qed
next
  case 0
  let ?D = "unat (vsock_probe_delay_secs cfg) * ns_per_sec"
  obtain d1 e1 now where i: "main_iter js cfg os t d e = Some (False, d1, e1)" "quiet_boot d1 e1"
    "d_phase d1 = WaitingVsock dl b (?D \<le> now - b)" "same_vm (d_vm d) (d_vm d1)"
    "clock e + ns_per_sec \<le> now" "now \<le> clock e + ns_per_sec + 4 * T" "now \<le> clock e1" "clock e1 \<le> now + 6 * T"
    "undisturbed K e1"
    using turn_delay [OF assms 0(1-3)] by blast
  have "?D \<le> (k + 1) * ns_per_sec" using 0(6) by (intro mult_le_mono1) simp
  then have "?D \<le> now - b" using i(5) 0(4) by simp
  then show ?case using i 0(5) run_turns_one [OF i(1)]
    by (intro exI [of _ 1] exI [of _ d1] exI [of _ e1]) simp
qed

text \<open>
  C4. The boot completes. Take a kernel that answers every call of the boot with success, in
  at most \<open>T\<close> nanoseconds each, with no client meanwhile, no signal but SIGCHLD, which it may
  deliver any number of times once \<open>vsock-test\<close> has run, and no death of the VM or the CA.
  Initialisation ends with the self-pipe empty and no child ended (\<open>K\<close>). With
  \<open>auto_start\<close> set and a boot timeout of at least three seconds and 20 calls, the daemon
  is, after at most four turns and one per second of the probe delay (one when the delay is
  zero), in phase \<open>Complete\<close> with the VM and the CA ready and a process for each. It gets
  there within the delay, 24 seconds and 100 calls. The delay plus the timeout must not wrap,
  and the deadlines must fit an \<open>Instant\<close>.
\<close>

theorem boot_completes:
  assumes "cooperative K os" "prompt os T"
    and init: "main_init sd os e0 = Some (cfg, l, t, d, e)" "auto_start cfg" "sigpipe e = []" "K (world e)"
    and nowrap: "unat (vsock_probe_delay_secs cfg) + unat (vm_boot_timeout_secs cfg) < 2 ^ 64"
    and room: "3 * ns_per_sec + 20 * T \<le> unat (vm_boot_timeout_secs cfg) * ns_per_sec"
    and fit: "clock e + unat (vsock_probe_delay_secs cfg) * ns_per_sec + 24 * ns_per_sec + 100 * T
        + longest_wait cfg < 2 ^ 63 * ns_per_sec"
  shows "\<exists>n d' e'. n \<le> max 1 (unat (vsock_probe_delay_secs cfg)) + 4 \<and>
    run_turns js cfg os t n d e = Some (d', e') \<and> d_phase d' = Complete \<and>
    vm_state (d_vm d') = Vm_Ready \<and> vm_child_pid (d_vm d') \<noteq> None \<and>
    ca_state (d_ca d') = Ca_Ready \<and> ca_child_pid (d_ca d') \<noteq> None \<and>
    clock e' \<le> clock e + unat (vsock_probe_delay_secs cfg) * ns_per_sec + 24 * ns_per_sec + 100 * T"
proof -
  let ?delay = "unat (vsock_probe_delay_secs cfg)" and ?timeout = "unat (vm_boot_timeout_secs cfg)"
  have sum: "unat (vsock_probe_delay_secs cfg + vm_boot_timeout_secs cfg) = ?delay + ?timeout"
    using nowrap by (simp add: unat_word_ariths)
  have 0: "quiet_boot d e" "undisturbed K e" "d_phase d = VmStarting"
    using main_init_state [OF init(1)] init(2-4) vm_inv_ops(1) ca_inv_ops(1)
    by (simp_all add: quiet_boot_def only_chld_def undisturbed_def)
  have "fits (longest_wait cfg) (10 * ns_per_sec + 16 * T) e" using fit by (simp add: fits_def)
  from turn_vm_starting [OF assms(1,2) 0 this, of js t, unfolded sum] obtain d1 e1 b where
    1: "main_iter js cfg os t d e = Some (False, d1, e1)" "quiet_boot d1 e1"
    "d_phase d1 = WaitingVsock (b + (?delay + ?timeout) * ns_per_sec) b False" "vm_child_pid (d_vm d1) \<noteq> None"
    "clock e \<le> b" "b \<le> clock e1" "clock e1 \<le> b + 6 * T" "clock e1 \<le> clock e + 10 * ns_per_sec + 22 * T"
    "undisturbed K e1" by blast
  let ?dl = "b + (?delay + ?timeout) * ns_per_sec"
  have pre: "b + 0 * ns_per_sec \<le> clock e1" "clock e1 \<le> b + ?delay * ns_per_sec + 6 * T"
    "?delay \<le> 0 + Suc (?delay - 1)" using 1(6,7) by linarith+
  from delay_ends [OF assms(1,2) 1(2,9,3) pre, of js t] obtain n d2 e2 where 2: "n \<le> Suc (?delay - 1)" "run_turns js cfg os t n d1 e1 = Some (d2, e2)" "quiet_boot d2 e2"
    "d_phase d2 = WaitingVsock ?dl b True" "vm_child_pid (d_vm d2) = vm_child_pid (d_vm d1)"
    "clock e2 \<le> b + ?delay * ns_per_sec + ns_per_sec + 16 * T" by blast
  have "clock e2 + 2 * ns_per_sec + 4 * T \<le> ?dl" using 2(6) room by (simp add: add_mult_distrib)
  from turn_probe [OF assms(1,2) 2(3,4) this, of js cfg t] obtain d3 e3 where
    3: "main_iter js cfg os t d2 e2 = Some (False, d3, e3)" "quiet_boot d3 e3" "d_phase d3 = CaStarting"
    "vm_state (d_vm d3) = Vm_Ready" "vm_child_pid (d_vm d3) = vm_child_pid (d_vm d2)"
    "clock e3 \<le> clock e2 + 2 * ns_per_sec + 12 * T" by blast
  have b: "b \<le> clock e + 10 * ns_per_sec + 22 * T" using 1(6,8) by simp
  have c3: "clock e3 \<le> clock e + ?delay * ns_per_sec + 13 * ns_per_sec + 50 * T" using 3(6) 2(6) b by simp
  then have "fits (longest_wait cfg) (10 * ns_per_sec + 10 * T) e3" using fit by (simp add: fits_def)
  from turn_ca_starting [OF assms(1,2) 3(2,3) this, of js t] obtain d4 e4 dl where
    4: "main_iter js cfg os t d3 e3 = Some (False, d4, e4)" "quiet_boot d4 e4" "d_phase d4 = WaitingCaPort dl"
    "same_vm (d_vm d3) (d_vm d4)" "ca_child_pid (d_ca d4) \<noteq> None"
    "clock e4 \<le> clock e3 + 10 * ns_per_sec + 16 * T" by blast
  from turn_port [OF assms(1,2) 4(2,3), of js cfg t] obtain d5 e5 where
    5: "main_iter js cfg os t d4 e4 = Some (False, d5, e5)" "d_phase d5 = Complete" "same_vm (d_vm d4) (d_vm d5)"
    "ca_state (d_ca d5) = Ca_Ready" "ca_child_pid (d_ca d5) = ca_child_pid (d_ca d4)"
    "clock e5 \<le> clock e4 + ns_per_sec + 12 * T" by blast
  have "run_turns js cfg os t 3 d2 e2 = Some (d5, e5)"
    using 3(1) 4(1) 5(1) by (simp add: numeral_3_eq_3)
  then have "run_turns js cfg os t (Suc (n + 3)) d e = Some (d5, e5)"
    unfolding run_turns.simps(2) using 1(1) run_turns_add [OF 2(2), of 3] by simp
  moreover have "Suc (n + 3) \<le> max 1 ?delay + 4" using 2(1) by (cases ?delay) auto
  moreover have "clock e5 \<le> clock e + ?delay * ns_per_sec + 24 * ns_per_sec + 100 * T"
    using c3 4(6) 5(6) by simp
  ultimately show ?thesis using 1(4) 2(5) 3(4,5) 4(4,5) 5(2-5)
    by (intro exI [of _ "Suc (n + 3)"] exI [of _ d5] exI [of _ e5]) simp
qed

text \<open>
  For the witness: \<open>vsock-test\<close> raises SIGCHLD at its end and leaves a file behind, after which
  \<open>poll\<close> returns at once and reports the pipe readable.
\<close>

definition sim_good :: "sim os" where
  "sim_good =
     sim_os\<lparr>os_exists := (\<lambda>_. answer True 0), os_metadata := (\<lambda>_. answer (Inr 2000000) 0),
            os_run := (\<lambda>_ w. (True, 1000, [SIGCHLD], w\<lparr>s_files := [(''/ran'', 1)]\<rparr>)),
            os_connect := (\<lambda>_ _. answer (Inr ()) 0), os_waitpid := answer WStillAlive 0,
            os_poll := (\<lambda>ms w. if s_files w = [] then answer (Some (False, False)) (ms * ns_per_ms) w
              else answer (Some (False, True)) 0 w)\<rparr>"

definition none_ended :: "sim \<Rightarrow> bool" where
  "none_ended w \<longleftrightarrow> s_files w = []"

lemma sim_good_cooperates: "cooperative none_ended sim_good" "prompt sim_good 1000"
proof -
  show "cooperative none_ended sim_good"
    unfolding cooperative_def boot_call_def only_sigchld_def none_ended_def
    by (intro conjI allI impI) (simp_all add: sim_good_def sim_os_def answer_def sim_spawn_def min_image_bytes_def)
  show "prompt sim_good 1000"
    by (auto simp: prompt_def takes_def sim_good_def sim_os_def answer_def
        sim_kill_def sim_spawn_def sim_waitpid_def sim_accept_def
        split: option.split proc_status.split list.split)
qed

theorem boot_completes_witness:
  "\<exists>cfg l t d e n d' e'. main_init (sim_serde []) sim_good ((sim_env sim_world)) = Some (cfg, l, t, d, e) \<and>
     n \<le> 19 \<and> run_turns sim_json cfg sim_good t n d e = Some (d', e') \<and> d_phase d' = Complete \<and>
     ca_state (d_ca d') = Ca_Ready"
proof -
  obtain l t d e where i: "main_init (sim_serde []) sim_good (sim_env sim_world) = Some (default_config, l, t, d, e)"
    and e: "sigpipe e = []" "clock e = 0" "none_ended (world e)"
    by (simp add: none_ended_def main_init_def load_with_warnings_def acquire_listener_def setup_signal_handler_def
        sim_good_def config_from_str_def sim_eval)
  have p: "auto_start default_config" "unat (vsock_probe_delay_secs default_config) = 15"
    "unat (vm_boot_timeout_secs default_config) = 60" by (simp_all add: default_defs)
  have "\<exists>n d' e'. n \<le> max 1 (unat (vsock_probe_delay_secs default_config)) + 4 \<and>
    run_turns sim_json default_config sim_good t n d e = Some (d', e') \<and> d_phase d' = Complete \<and>
    vm_state (d_vm d') = Vm_Ready \<and> vm_child_pid (d_vm d') \<noteq> None \<and>
    ca_state (d_ca d') = Ca_Ready \<and> ca_child_pid (d_ca d') \<noteq> None \<and>
    clock e' \<le> clock e + unat (vsock_probe_delay_secs default_config) * ns_per_sec + 24 * ns_per_sec + 100 * 1000"
    by (rule boot_completes [OF sim_good_cooperates i p(1) e(1,3)])
      (simp_all add: p e longest_wait_def grace_ns_def default_defs ns_per_sec_def)
  then show ?thesis using i p(2) by auto
qed

section \<open>Without cooperation: the waits end\<close>

text \<open>A phase whose deadline has passed at \<open>now\<close>.\<close>

fun overdue :: "config \<Rightarrow> startup_phase \<Rightarrow> instant \<Rightarrow> bool" where
  "overdue cfg (WaitingVsock dl b x) now \<longleftrightarrow>
     dl < now \<and> b + unat (vsock_probe_delay_secs cfg) * ns_per_sec \<le> now"
| "overdue cfg (WaitingCaPort dl) now \<longleftrightarrow> dl < now"
| "overdue cfg _ now \<longleftrightarrow> False"

text \<open>Where a turn goes from such a phase: to the end, or from the delay to the probing.\<close>

fun overdue_next :: "startup_phase \<Rightarrow> startup_phase" where
  "overdue_next (WaitingVsock dl b x) = (if x then Failed ''vsock timeout'' else WaitingVsock dl b True)"
| "overdue_next (WaitingCaPort dl) = Complete"
| "overdue_next ph = ph"

lemma overdue_mono: "overdue cfg ph a \<Longrightarrow> a \<le> b \<Longrightarrow> overdue cfg ph b"
  by (cases ph) auto

lemma overdue_step:
  assumes "startup_match cfg os ph vm ca e = Some (ph', vm', ca', e')" "overdue cfg ph (clock e)"
  shows "ph' = overdue_next ph"
  using assms(1)
proof (cases rule: startup_match_cases)
  case settled
  then show ?thesis using assms(2) by (cases ph) auto
next
  case (delay d b now)
  have "clock e \<le> now" using instant_now_ge [of e os] delay(2) by simp
  then have "b + unat (vsock_probe_delay_secs cfg) * ns_per_sec \<le> now" using delay(1) assms(2) by simp
  then have "unat (vsock_probe_delay_secs cfg) * ns_per_sec \<le> now - b" by linarith
  then show ?thesis using delay by (simp add: elapsed_def)
next
  case (probe_no d b now e1)
  have "clock e \<le> now" using instant_now_ge [of e os] probe_no(2) by simp
  then show ?thesis using probe_no assms(2) by simp
next
  case (probe_yes d b now e1 e2)
  have "clock e \<le> now" using instant_now_ge [of e os] probe_yes(2) by simp
  then show ?thesis using probe_yes assms(2) by simp
next
  case (port_no d e1 now)
  have "clock e \<le> clock e1" using is_port_ready_env [of e cfg os] port_no(2) by (simp add: op_le_def)
  moreover have "clock e1 \<le> now" using instant_now_ge [of e1 os] port_no(3) by simp
  ultimately show ?thesis using port_no assms(2) by simp
qed (use assms(2) in simp_all)

lemma overdue_turn:
  assumes "main_iter js cfg os t d e = Some (False, d', e')" "vm_inv (d_vm d)" "ca_inv (d_ca d)"
    and "overdue cfg (d_phase d) (clock e)"
  shows "d_phase d' = overdue_next (d_phase d) \<and> clock e \<le> clock e'"
proof -
  obtain vm2 ca2 e4 vm3 ca3 e5 where m: "clock e \<le> clock e4" "clock e4 \<le> clock e5" "clock e5 \<le> clock e'"
    "startup_match cfg os (d_phase d) vm2 ca2 e4 = Some (d_phase d', vm3, ca3, e5)"
    using iter_advances [OF assms(1-3)] by metis
  then show ?thesis using overdue_step [OF m(4) overdue_mono [OF assms(4) m(1)]] by simp
qed

text \<open>
  C13. The boot does not wait for ever. In any state the daemon reaches with the deadline of
  a waiting phase behind it (the vsock deadline and the end of the probe delay, or the
  deadline of the CA's port), two more turns of the loop end the boot, whatever the kernel
  answers and clients and children do meanwhile: with \<open>Failed "vsock timeout"\<close> when it waited
  for the vsock, with \<open>Complete\<close> when it waited for the port.
\<close>

theorem boot_waits_end:
  assumes "main_init sd os e0 = Some (cfg, l, t, d0, e1)" "turns js cfg os t d0 e1 d e"
    and "overdue cfg (d_phase d) (clock e)" and "run_turns js cfg os t 2 d e = Some (d', e')"
  shows "d_phase d' = (case d_phase d of WaitingVsock _ _ _ \<Rightarrow> Failed ''vsock timeout'' | _ \<Rightarrow> Complete)"
proof -
  obtain d1 e1 where 1: "main_iter js cfg os t d e = Some (False, d1, e1)"
    and 2: "main_iter js cfg os t d1 e1 = Some (False, d', e')"
    using assms(4) by (auto simp: numeral_2_eq_2 split: option.splits bool.splits)
  have inv: "vm_inv (d_vm d) \<and> ca_inv (d_ca d)"
    by (rule wf.turns_kept [OF assms(2)])
      (use main_init_state [OF assms(1)] vm_inv_ops(1) ca_inv_ops(1) in simp)
  have inv1: "vm_inv (d_vm d1) \<and> ca_inv (d_ca d1)" by (rule wf.iter_kept [OF 1 inv])
  have p1: "d_phase d1 = overdue_next (d_phase d)" "clock e \<le> clock e1"
    using overdue_turn [OF 1] inv assms(3) by simp_all
  show ?thesis
  proof (cases "overdue cfg (d_phase d1) (clock e1)")
    case True
    then have "d_phase d' = overdue_next (overdue_next (d_phase d))"
      using overdue_turn [OF 2] inv1 p1(1) by simp
    then show ?thesis using assms(3) by (cases "d_phase d") auto
  next
    case False
    then have "settled (d_phase d1)" using p1 assms(3) by (cases "d_phase d") (auto split: if_splits)
    moreover have "phase_step (d_phase d1) (d_phase d')" using iter_phase [OF 2] inv1 by simp
    ultimately have "d_phase d' = d_phase d1" by (cases "d_phase d1") (auto simp: phase_step_simps)
    then show ?thesis using False p1 assms(3) by (cases "d_phase d") (auto split: if_splits)
  qed
qed

text \<open>
  For the witness: no delay, no timeout, and a kernel on which the clock moves. The deadline
  is over as soon as the VM is started.
\<close>

definition sim_late :: "sim os" where
  "sim_late = sim_good\<lparr>os_tick := answer () 1, os_read_file := (\<lambda>_. answer (Inr ''{'') 0)\<rparr>"

definition hasty_config :: config where
  "hasty_config = default_config\<lparr>vsock_probe_delay_secs := 0, vm_boot_timeout_secs := 0\<rparr>"

lemmas sim_turn_eval = main_iter_def poll_timeout_def poll_timeout_ms_def health_interval_def sig_ready_def
  advance_startup_def vm_is_dead_def ca_is_dead_def startup_match_def vm_start_def validate_images_def
  required_images_def sized_images_def min_image_bytes_def spawn_with_log_def rotate_if_needed_def
  max_log_bytes_def health_check_def vm_maybe_reset_crash_count_def ca_maybe_reset_crash_count_def
  sim_late_def sim_good_def sim_eval hasty_config_def default_defs

lemma late_init:
  "\<exists>l t d e. main_init (sim_serde [(''vsock_probe_delay_secs'', FU64 0), (''vm_boot_timeout_secs'', FU64 0)])
      sim_late (sim_env sim_world) = Some (hasty_config, l, t, d, e) \<and> d_phase d = VmStarting \<and>
    d_vm d = vm_new \<and> d_ca d = ca_new \<and> d_last_health d = 2 \<and> clock e = 2 \<and> undisturbed none_ended e"
  by (simp add: undisturbed_def none_ended_def main_init_def load_with_warnings_def acquire_listener_def setup_signal_handler_def
      config_from_str_def sim_serde_def config_fields_def set_field_def utf8_valid_def
      sim_late_def sim_good_def sim_eval hasty_config_def default_defs)

lemma late_turn:
  assumes "d_phase d = VmStarting" "d_vm d = vm_new" "d_ca d = ca_new" "d_last_health d = 2" "clock e = 2"
    "undisturbed none_ended e"
  shows "\<exists>d' e'. main_iter sim_json hasty_config sim_late t d e = Some (False, d', e') \<and>
    d_phase d' = WaitingVsock 9999001004 9999001004 False \<and> 9999001004 < clock e'"
  using assms unfolding undisturbed_def none_ended_def
  by (simp add: sim_turn_eval vm_new_def ca_new_def)

lemma sim_late_cooperates: "cooperative none_ended sim_late" "prompt sim_late 1000"
  using sim_good_cooperates
  by (auto simp: cooperative_def boot_call_def only_sigchld_def prompt_def takes_def sim_late_def answer_def)

lemma late_probe:
  assumes "quiet_boot d e" "d_phase d = WaitingVsock dl b True" "dl < clock e"
  shows "\<exists>d' e'. main_iter js cfg sim_late t d e = Some (False, d', e')"
proof (cases rule: boot_turn [OF sim_late_cooperates assms(1), where cfg = cfg and js = js and t = t])
  case (1 ms e2)
  obtain now e5 where n: "instant_now sim_late e2 = (now, e5)" "clock e2 \<le> now" "boot_le none_ended e2 e5"
    using now_boot [OF sim_late_cooperates(1)] by blast
  have "only_chld e5" using boot_le_trans [OF 1(2) n(3)] assms(1) by (simp add: boot_le_def quiet_boot_def)
  moreover
  have "startup_match cfg sim_late (d_phase d) (d_vm d) (d_ca d) e2 =
      Some (Failed ''vsock timeout'', d_vm d, d_ca d, e5)"
    using n(1,2) assms(2,3) 1(4) by (simp add: startup_match_def)
  ultimately show ?thesis using 1(6) by blast
qed

theorem boot_waits_end_witness:
  "\<exists>sd :: fval serde. \<exists>l t d e d' e'.
     main_init sd sim_late (sim_env sim_world) = Some (hasty_config, l, t, d, e) \<and>
     run_turns sim_json hasty_config sim_late t 3 d e = Some (d', e') \<and> d_phase d' = Failed ''vsock timeout''"
proof -
  let ?sd = "sim_serde [(''vsock_probe_delay_secs'', FU64 0), (''vm_boot_timeout_secs'', FU64 0)]"
  obtain l t d e where i: "main_init ?sd sim_late (sim_env sim_world) = Some (hasty_config, l, t, d, e)"
    and d: "d_phase d = VmStarting" "d_vm d = vm_new" "d_ca d = ca_new" "d_last_health d = 2" "clock e = 2"
      "undisturbed none_ended e" using late_init by blast
  obtain d1 e1 where 1: "main_iter sim_json hasty_config sim_late t d e = Some (False, d1, e1)"
    "d_phase d1 = WaitingVsock 9999001004 9999001004 False" "9999001004 < clock e1"
    using late_turn [OF d] by blast
  have q: "quiet_boot d e" using d(2,3,6) vm_inv_ops(1) ca_inv_ops(1)
    by (simp add: quiet_boot_def only_chld_def undisturbed_def)
  have "fits (longest_wait hasty_config) (10 * ns_per_sec + 16 * 1000) e"
    using d(5) by (simp add: fits_def longest_wait_def grace_ns_def hasty_config_def default_defs ns_per_sec_def)
  from turn_vm_starting [OF sim_late_cooperates q d(6,1) this, of sim_json t]
  have q1: "quiet_boot d1 e1" "undisturbed none_ended e1" using 1(1) by auto
  obtain d2 e2 where 2: "main_iter sim_json hasty_config sim_late t d1 e1 = Some (False, d2, e2)" "quiet_boot d2 e2"
    "d_phase d2 = WaitingVsock 9999001004 9999001004 True" "clock e1 \<le> clock e2"
    using turn_delay [OF sim_late_cooperates q1 1(2), of sim_json hasty_config t]
    by (auto simp: hasty_config_def)
  obtain d3 e3 where 3: "main_iter sim_json hasty_config sim_late t d2 e2 = Some (False, d3, e3)"
    using late_probe [OF 2(2,3)] 1(3) 2(4) by force
  have r: "run_turns sim_json hasty_config sim_late t 2 d1 e1 = Some (d3, e3)"
    using 2(1) 3 by (simp add: numeral_2_eq_2)
  have late: "overdue hasty_config (d_phase d1) (clock e1)"
    using 1(2,3) by (simp add: hasty_config_def)
  have "d_phase d3 = Failed ''vsock timeout''"
    using boot_waits_end [OF i turns.turn [OF turns.here 1(1)] late r] 1(2) by simp
  moreover have "run_turns sim_json hasty_config sim_late t 3 d e = Some (d3, e3)"
    using 1(1) r by (simp add: numeral_3_eq_3 numeral_2_eq_2)
  ultimately show ?thesis using i by blast
qed

end
