(* ===== verification/Unit_Tests.thy ===== *)
theory Unit_Tests
  imports Config Vm Health Log_Collector
begin

text \<open>
  The repository's own unit tests, the \<open>#[cfg(test)]\<close> modules of config.rs, vm.rs,
  health.rs and log_collector.rs, as executable checks of the model: one boolean definition
  per \<open>#[test]\<close> function, under its name, true when every assertion of the test holds. The
  model passes them all on every kernel and JSON library that do what the tests rely on.

  Files a test writes are kept as a map from paths to contents. \<open>K F\<close> is the kernel once
  the files are \<open>F\<close>; the temporary directory and the process id are arguments.
\<close>

section \<open>Files\<close>

type_synonym files = "path \<Rightarrow> string option"

text \<open>\<open>File::create\<close> with \<open>write_all\<close>, or \<open>fs::write\<close>: the file has the new content.\<close>

definition write_file :: "path \<Rightarrow> string \<Rightarrow> files \<Rightarrow> files" where
  "write_file p content F = F(p \<mapsto> content)"

text \<open>What the tests rely on: the kernel shows the files that were written.\<close>

definition file_kernel :: "(files \<Rightarrow> 'w os) \<Rightarrow> bool" where
  "file_kernel K \<longleftrightarrow>
     (\<forall>F p w. fst (os_exists (K F) p w) = (F p \<noteq> None) \<and>
       (case F p of
          None \<Rightarrow> (\<exists>err. fst (os_read_file (K F) p w) = Inl err)
        | Some c \<Rightarrow> fst (os_metadata (K F) p w) = Inr (of_nat (length c)) \<and>
                    fst (os_read_file (K F) p w) = Inr c))"

lemma file_kernelD:
  assumes "file_kernel K"
  shows "fst (os_exists (K F) p w) = (F p \<noteq> None)"
    and "F p = None \<Longrightarrow> \<exists>err. fst (os_read_file (K F) p w) = Inl err"
    and "F p = Some c \<Longrightarrow> fst (os_metadata (K F) p w) = Inr (of_nat (length c))"
    and "F p = Some c \<Longrightarrow> fst (os_read_file (K F) p w) = Inr c"
  using assms [unfolded file_kernel_def, rule_format, of F p w] by simp_all

lemma file_kernel_view:
  assumes "file_kernel K"
  shows "fs_view (K F) (\<lambda>p. map_option (\<lambda>c. of_nat (length c)) (F p))"
  unfolding fs_view_def
proof (intro allI conjI impI)
  fix w p and n :: u64
  show "fst (os_exists (K F) p w) = (map_option (\<lambda>c. of_nat (length c)) (F p) \<noteq> (None :: u64 option))"
    using file_kernelD(1) [OF assms] by simp
  assume "map_option (\<lambda>c. of_nat (length c)) (F p) = Some n"
  then show "fst (os_metadata (K F) p w) = Inr n"
    using file_kernelD(3) [OF assms, of F p] by (cases "F p") simp_all
qed

lemma file_kernel_read:
  assumes "file_kernel K"
  shows "F p = None \<Longrightarrow> \<exists>err. fst (read_to_string (K F) p e) = Inl err"
    and "F p = Some c \<Longrightarrow> utf8_valid c \<Longrightarrow> fst (read_to_string (K F) p e) = Inr c"
proof -
  obtain a e1 where s: "sys (os_read_file (K F) p) (\<lambda>r. [EvReadFile p r]) e = (a, e1)" by fastforce
  have a: "a = fst (os_read_file (K F) p (world e))" using sys_facts(3) [OF s] .
  show "\<exists>err. fst (read_to_string (K F) p e) = Inl err" if "F p = None"
    using file_kernelD(2) [OF assms, of F p "world e"] that a s by (auto simp: read_to_string_def)
  show "fst (read_to_string (K F) p e) = Inr c" if "F p = Some c" "utf8_valid c"
    using file_kernelD(4) [OF assms, of F p c "world e"] that a s by (simp add: read_to_string_def)
qed

text \<open>Joining file names to one directory keeps them apart.\<close>

lemma path_join_eq:
  assumes "n \<noteq> []" "hd n \<noteq> CHR ''/''" "m \<noteq> []" "hd m \<noteq> CHR ''/''"
  shows "path_join d n = path_join d m \<longleftrightarrow> n = m"
  using assms by (simp add: path_join_def)

section \<open>config.rs\<close>

definition default_config_is_valid :: bool where
  "default_config_is_valid \<longleftrightarrow>
     (let c = default_config in ca_port c = 19030 \<and> vsock_cid c = 103 \<and> auto_start c)"

definition partial_json :: string where
  "partial_json = ''{\"vm_cpus\": 4}''"

definition partial_json_uses_defaults_for_missing :: "'v serde \<Rightarrow> bool" where
  "partial_json_uses_defaults_for_missing sd \<longleftrightarrow>
     (case config_from_str sd partial_json of
        Inl _ \<Rightarrow> False
      | Inr c \<Rightarrow> vm_cpus c = 4 \<and> ca_port c = 19030)"

definition empty_json_gives_all_defaults :: "'v serde \<Rightarrow> bool" where
  "empty_json_gives_all_defaults sd \<longleftrightarrow>
     (case config_from_str sd ''{}'' of
        Inl _ \<Rightarrow> False
      | Inr c \<Rightarrow> vm_cpus c = 2 \<and> vm_mem_mb c = 256 \<and> vsock_cid c = 103 \<and> auto_start c)"

definition malformed_json_returns_error :: "'v serde \<Rightarrow> bool" where
  "malformed_json_returns_error sd \<longleftrightarrow>
     (case config_from_str sd ''{broken'' of Inl _ \<Rightarrow> True | Inr _ \<Rightarrow> False)"

definition wrong_type_json :: string where
  "wrong_type_json = ''{\"vm_cpus\": \"not_a_number\"}''"

definition wrong_type_field_fails_entire_parse :: "'v serde \<Rightarrow> bool" where
  "wrong_type_field_fails_entire_parse sd \<longleftrightarrow>
     (case config_from_str sd wrong_type_json of Inl _ \<Rightarrow> True | Inr _ \<Rightarrow> False)"

definition full_json :: string where
  "full_json = str_join [nl]
     [''{'',
      ''            \"image_dir\": \"/tmp/vm\",'',
      ''            \"vm_cpus\": 8,'',
      ''            \"vm_mem_mb\": 4096,'',
      ''            \"vsock_cid\": 200,'',
      ''            \"ca_binary\": \"/tmp/ca\",'',
      ''            \"ca_port\": 9999,'',
      ''            \"ca_admin_token\": \"my-secure-token-that-is-long-enough\",'',
      ''            \"ca_log_level\": \"debug\",'',
      ''            \"data_dir\": \"/tmp/data\",'',
      ''            \"log_dir\": \"/tmp/logs\",'',
      ''            \"auto_start\": false,'',
      ''            \"health_interval_secs\": 30,'',
      ''            \"health_fail_threshold\": 5,'',
      ''            \"vm_boot_timeout_secs\": 120,'',
      ''            \"vsock_probe_delay_secs\": 20,'',
      ''            \"ca_ready_timeout_secs\": 30,'',
      ''            \"shutdown_grace_secs\": 5'',
      ''        }'']"

definition all_fields_overridden :: "'v serde \<Rightarrow> bool" where
  "all_fields_overridden sd \<longleftrightarrow>
     (case config_from_str sd full_json of
        Inl _ \<Rightarrow> False
      | Inr c \<Rightarrow> vm_cpus c = 8 \<and> vsock_cid c = 200 \<and> ca_port c = 9999 \<and> \<not> auto_start c)"

text \<open>
  What the tests rely on of \<open>serde_json\<close>: how it reads these documents, and strings, numbers
  in range and booleans as the types of the fields. \<open>enc\<close> are the library's own values.
\<close>

datatype sample = JText string | JNumber nat | JTruth bool

definition sample_docs :: "(string \<times> (string \<times> sample) list option) list" where
  "sample_docs =
     [(partial_json, Some [(''vm_cpus'', JNumber 4)]),
      (''{}'', Some []),
      (''{broken'', None),
      (wrong_type_json, Some [(''vm_cpus'', JText ''not_a_number'')]),
      (full_json, Some
         [(''image_dir'', JText ''/tmp/vm''), (''vm_cpus'', JNumber 8), (''vm_mem_mb'', JNumber 4096),
          (''vsock_cid'', JNumber 200), (''ca_binary'', JText ''/tmp/ca''), (''ca_port'', JNumber 9999),
          (''ca_admin_token'', JText ''my-secure-token-that-is-long-enough''),
          (''ca_log_level'', JText ''debug''), (''data_dir'', JText ''/tmp/data''),
          (''log_dir'', JText ''/tmp/logs''), (''auto_start'', JTruth False),
          (''health_interval_secs'', JNumber 30), (''health_fail_threshold'', JNumber 5),
          (''vm_boot_timeout_secs'', JNumber 120), (''vsock_probe_delay_secs'', JNumber 20),
          (''ca_ready_timeout_secs'', JNumber 30), (''shutdown_grace_secs'', JNumber 5)])]"

definition reads_samples :: "'v serde \<Rightarrow> (sample \<Rightarrow> 'v) \<Rightarrow> bool" where
  "reads_samples sd enc \<longleftrightarrow>
     (\<forall>(s, d) \<in> set sample_docs. case d of
        None \<Rightarrow> (\<exists>err. sd_parse sd s = Inl err)
      | Some es \<Rightarrow> sd_parse sd s = Inr (DocMap (map (map_prod id enc) es))) \<and>
     (\<forall>s. sd_string sd (enc (JText s)) = Inr s \<and> (\<exists>err. sd_u32 sd (enc (JText s)) = Inl err)) \<and>
     (\<forall>n < 2 ^ 16. sd_u16 sd (enc (JNumber n)) = Inr (of_nat n) \<and>
        sd_u32 sd (enc (JNumber n)) = Inr (of_nat n) \<and> sd_u64 sd (enc (JNumber n)) = Inr (of_nat n)) \<and>
     (\<forall>b. sd_bool sd (enc (JTruth b)) = Inr b)"

section \<open>vm.rs\<close>

definition test_config :: "path \<Rightarrow> config" where
  "test_config dir =
     default_config\<lparr>image_dir := dir, ca_binary := path_join dir ''secret_proxy_ca'',
       log_dir := path_join dir ''logs''\<rparr>"

definition validate_images_missing_dir :: "(files \<Rightarrow> 'w os) \<Rightarrow> files \<Rightarrow> 'w env \<Rightarrow> bool" where
  "validate_images_missing_dir K F e \<longleftrightarrow>
     (case fst (validate_images (test_config ''/nonexistent'') (K F) e) of
        Inl _ \<Rightarrow> True | Inr _ \<Rightarrow> False)"

definition validate_images_missing_file ::
  "(files \<Rightarrow> 'w os) \<Rightarrow> path \<Rightarrow> nat \<Rightarrow> files \<Rightarrow> 'w env \<Rightarrow> bool" where
  "validate_images_missing_file K temp_dir process_id F e \<longleftrightarrow>
     (let dir = path_join temp_dir (''teeproxyd_vm_test_'' @ dec process_id);
          F1 = fold (\<lambda>name. write_file (path_join dir name) (replicate 2000000 (CHR 0x00)))
                 [''pvm-manage'', ''crosvm'', ''custom_pvmfw'', ''kernel.bin''] F
      in case fst (validate_images (test_config dir) (K F1) e) of
           Inl err \<Rightarrow> sublist ''disk.img'' err
         | Inr _ \<Rightarrow> False)"

definition validate_images_too_small ::
  "(files \<Rightarrow> 'w os) \<Rightarrow> path \<Rightarrow> nat \<Rightarrow> files \<Rightarrow> 'w env \<Rightarrow> bool" where
  "validate_images_too_small K temp_dir process_id F e \<longleftrightarrow>
     (let dir = path_join temp_dir (''teeproxyd_vm_small_'' @ dec process_id);
          F1 = fold (\<lambda>name. write_file (path_join dir name) []) [''pvm-manage'', ''crosvm'', ''custom_pvmfw''] F;
          F2 = write_file (path_join dir ''kernel.bin'') ''tiny'' F1;
          F3 = write_file (path_join dir ''disk.img'') (replicate 2000000 (CHR 0x00)) F2
      in case fst (validate_images (test_config dir) (K F3) e) of
           Inl err \<Rightarrow> sublist ''kernel.bin'' err \<and> sublist ''too small'' err
         | Inr _ \<Rightarrow> False)"

definition validate_images_all_present ::
  "(files \<Rightarrow> 'w os) \<Rightarrow> path \<Rightarrow> nat \<Rightarrow> files \<Rightarrow> 'w env \<Rightarrow> bool" where
  "validate_images_all_present K temp_dir process_id F e \<longleftrightarrow>
     (let dir = path_join temp_dir (''teeproxyd_vm_ok_'' @ dec process_id);
          F1 = fold (\<lambda>name. write_file (path_join dir name) []) [''pvm-manage'', ''crosvm'', ''custom_pvmfw''] F;
          F2 = fold (\<lambda>name. write_file (path_join dir name) (replicate 2000000 (CHR 0x00)))
                 [''kernel.bin'', ''disk.img''] F1
      in case fst (validate_images (test_config dir) (K F2) e) of Inl _ \<Rightarrow> False | Inr _ \<Rightarrow> True)"

definition state_transitions :: "'w os \<Rightarrow> 'w env \<Rightarrow> bool" where
  "state_transitions os e \<longleftrightarrow>
     (let vm = vm_new; vm1 = fst (vm_set_state os Vm_Ready vm e); vm2 = vm_mark_dead vm1
      in vm_state vm = Vm_Idle \<and> vm_state vm1 = Vm_Ready \<and> vm_crash_count vm1 = 0 \<and>
         vm_state vm2 = Vm_Idle \<and> vm_crash_count vm2 = 1)"

section \<open>health.rs\<close>

definition new_monitor_starts_healthy :: bool where
  "new_monitor_starts_healthy \<longleftrightarrow>
     (let h = health_new 1 3 in consecutive_failures h = 0 \<and> consecutive_timeouts h = 0)"

definition threshold_defaults :: bool where
  "threshold_defaults \<longleftrightarrow>
     (let h = health_new 19030 3
      in fail_threshold h = 3 \<and> timeout_threshold h = 10 \<and> hm_port h = 19030)"

definition probe_unreachable_port_returns_degraded_then_restart :: "'w os \<Rightarrow> 'w env \<Rightarrow> bool" where
  "probe_unreachable_port_returns_degraded_then_restart os e \<longleftrightarrow>
     (case health_probe os (health_new 1 2) e of (r1, h1, e1) \<Rightarrow>
        if r1 = Degraded 1 then
          (case health_probe os h1 e1 of (r2, h2, e2) \<Rightarrow>
             r2 = RestartNeeded \<and> consecutive_failures h2 = 0)
        else True)"

text \<open>The port the test binds its listener to is the argument \<open>port\<close>.\<close>

definition probe_localhost_open_port_returns_ok :: "'w os \<Rightarrow> u16 \<Rightarrow> 'w env \<Rightarrow> bool" where
  "probe_localhost_open_port_returns_ok os port e \<longleftrightarrow>
     (case health_probe os (health_new port 3) e of (r, h, _) \<Rightarrow>
        r = HealthOk \<and> consecutive_failures h = 0)"

section \<open>log_collector.rs\<close>

definition temp_file :: "path \<Rightarrow> nat \<Rightarrow> string \<Rightarrow> path" where
  "temp_file temp_dir process_id name =
     path_join temp_dir (''teeproxyd_test_'' @ name @ ''_'' @ dec process_id)"

definition tail_nonexistent_file :: "(files \<Rightarrow> 'w os) \<Rightarrow> files \<Rightarrow> 'w env \<Rightarrow> bool" where
  "tail_nonexistent_file K F e \<longleftrightarrow>
     fst (tail_log (K F) ''/nonexistent/path'' 10 e) = ''(file not found)''"

definition tail_empty_file :: "(files \<Rightarrow> 'w os) \<Rightarrow> path \<Rightarrow> nat \<Rightarrow> files \<Rightarrow> 'w env \<Rightarrow> bool" where
  "tail_empty_file K temp_dir process_id F e \<longleftrightarrow>
     (let path = temp_file temp_dir process_id ''empty''
      in fst (tail_log (K (write_file path '''' F)) path 10 e) = '''')"

definition tail_fewer_lines_than_requested ::
  "(files \<Rightarrow> 'w os) \<Rightarrow> path \<Rightarrow> nat \<Rightarrow> files \<Rightarrow> 'w env \<Rightarrow> bool" where
  "tail_fewer_lines_than_requested K temp_dir process_id F e \<longleftrightarrow>
     (let path = temp_file temp_dir process_id ''few'';
          F1 = write_file path (''line1'' @ [nl] @ ''line2'' @ [nl] @ ''line3'' @ [nl]) F
      in fst (tail_log (K F1) path 10 e) = ''line1'' @ [nl] @ ''line2'' @ [nl] @ ''line3'')"

definition five_lines :: string where
  "five_lines = ''a'' @ [nl] @ ''b'' @ [nl] @ ''c'' @ [nl] @ ''d'' @ [nl] @ ''e'' @ [nl]"

definition tail_exact_lines :: "(files \<Rightarrow> 'w os) \<Rightarrow> path \<Rightarrow> nat \<Rightarrow> files \<Rightarrow> 'w env \<Rightarrow> bool" where
  "tail_exact_lines K temp_dir process_id F e \<longleftrightarrow>
     (let path = temp_file temp_dir process_id ''exact''
      in fst (tail_log (K (write_file path five_lines F)) path 3 e) = ''c'' @ [nl] @ ''d'' @ [nl] @ ''e'')"

definition tail_one_line :: "(files \<Rightarrow> 'w os) \<Rightarrow> path \<Rightarrow> nat \<Rightarrow> files \<Rightarrow> 'w env \<Rightarrow> bool" where
  "tail_one_line K temp_dir process_id F e \<longleftrightarrow>
     (let path = temp_file temp_dir process_id ''one''
      in fst (tail_log (K (write_file path five_lines F)) path 1 e) = ''e'')"

section \<open>The model passes them\<close>

lemma sample_parse:
  assumes "reads_samples sd enc"
  shows "sd_parse sd partial_json = Inr (DocMap [(''vm_cpus'', enc (JNumber 4))])"
    and "sd_parse sd ''{}'' = Inr (DocMap [])"
    and "\<exists>err. sd_parse sd ''{broken'' = Inl err"
    and "sd_parse sd wrong_type_json = Inr (DocMap [(''vm_cpus'', enc (JText ''not_a_number''))])"
  using assms unfolding reads_samples_def sample_docs_def
  by (simp_all add: partial_json_def wrong_type_json_def full_json_def)

lemma sample_values:
  assumes "reads_samples sd enc"
  shows "sd_string sd (enc (JText s)) = Inr s" and "\<exists>err. sd_u32 sd (enc (JText s)) = Inl err"
    and "n < 2 ^ 16 \<Longrightarrow> sd_u16 sd (enc (JNumber n)) = Inr (of_nat n)"
    and "n < 2 ^ 16 \<Longrightarrow> sd_u32 sd (enc (JNumber n)) = Inr (of_nat n)"
    and "n < 2 ^ 16 \<Longrightarrow> sd_u64 sd (enc (JNumber n)) = Inr (of_nat n)"
    and "sd_bool sd (enc (JTruth b)) = Inr b"
  using assms unfolding reads_samples_def by blast+

lemma config_tests_pass:
  assumes "reads_samples sd enc"
  shows "default_config_is_valid" and "partial_json_uses_defaults_for_missing sd"
    and "empty_json_gives_all_defaults sd" and "malformed_json_returns_error sd"
    and "wrong_type_field_fails_entire_parse sd" and "all_fields_overridden sd"
proof -
  note p = sample_parse [OF assms] and v = sample_values [OF assms]
  show default_config_is_valid by (simp add: default_config_is_valid_def default_defs)
  show "partial_json_uses_defaults_for_missing sd"
    by (simp add: partial_json_uses_defaults_for_missing_def config_from_str_def p v
        config_fields_def set_field_def default_defs)
  show "empty_json_gives_all_defaults sd"
    by (simp add: empty_json_gives_all_defaults_def config_from_str_def p default_defs)
  show "malformed_json_returns_error sd"
    using p(3) by (auto simp: malformed_json_returns_error_def config_from_str_def)
  obtain err where "sd_u32 sd (enc (JText ''not_a_number'')) = Inl err" using v(2) by blast
  then show "wrong_type_field_fails_entire_parse sd"
    by (simp add: wrong_type_field_fails_entire_parse_def config_from_str_def p
        config_fields_def set_field_def)
  have "sd_parse sd full_json = Inr (DocMap (map (map_prod id enc)
      [(''image_dir'', JText ''/tmp/vm''), (''vm_cpus'', JNumber 8), (''vm_mem_mb'', JNumber 4096),
          (''vsock_cid'', JNumber 200), (''ca_binary'', JText ''/tmp/ca''), (''ca_port'', JNumber 9999),
          (''ca_admin_token'', JText ''my-secure-token-that-is-long-enough''),
          (''ca_log_level'', JText ''debug''), (''data_dir'', JText ''/tmp/data''),
          (''log_dir'', JText ''/tmp/logs''), (''auto_start'', JTruth False),
          (''health_interval_secs'', JNumber 30), (''health_fail_threshold'', JNumber 5),
          (''vm_boot_timeout_secs'', JNumber 120), (''vsock_probe_delay_secs'', JNumber 20),
          (''ca_ready_timeout_secs'', JNumber 30), (''shutdown_grace_secs'', JNumber 5)]))"
    using assms unfolding reads_samples_def sample_docs_def by simp
  then show "all_fields_overridden sd"
    by (simp add: all_fields_overridden_def config_from_str_def v config_fields_def set_field_def)
qed

text \<open>Image validation as the tests see it: the first bad image decides.\<close>

lemmas images_eval = required_images_def sized_images_def
  min_image_bytes_def write_file_def path_join_eq test_config_def

lemma vm_tests_pass:
  assumes K: "file_kernel K"
  shows "(\<forall>n. F (path_join ''/nonexistent'' n) = None) \<Longrightarrow> validate_images_missing_dir K F e"
    and "F (path_join (path_join tmp (''teeproxyd_vm_test_'' @ dec i)) ''disk.img'') = None \<Longrightarrow>
      validate_images_missing_file K tmp i F e"
    and "validate_images_too_small K tmp i F e"
    and "validate_images_all_present K tmp i F e"
    and "state_transitions os e'"
proof -
  show "validate_images_missing_dir K F e" if "\<forall>n. F (path_join ''/nonexistent'' n) = None"
    using that by (simp add: validate_images_missing_dir_def validate_images_view [OF file_kernel_view [OF K]] images_eval)
  show "validate_images_missing_file K tmp i F e"
    if "F (path_join (path_join tmp (''teeproxyd_vm_test_'' @ dec i)) ''disk.img'') = None"
    using that by (simp add: validate_images_missing_file_def Let_def validate_images_view [OF file_kernel_view [OF K]] images_eval)
  show "validate_images_too_small K tmp i F e"
    by (simp add: validate_images_too_small_def Let_def validate_images_view [OF file_kernel_view [OF K]] images_eval sublist_Cons_right)
  show "validate_images_all_present K tmp i F e"
    by (simp add: validate_images_all_present_def Let_def validate_images_view [OF file_kernel_view [OF K]] images_eval)
  show "state_transitions os e'"
    by (simp add: state_transitions_def vm_new_def vm_set_state_def vm_mark_dead_def Let_def case_prod_beta)
qed

lemma health_tests_pass:
  shows "new_monitor_starts_healthy" and "threshold_defaults"
    and "(\<forall>w. fst (os_connect os 1 2 w) = r) \<Longrightarrow>
      probe_unreachable_port_returns_degraded_then_restart os e"
    and "(\<forall>w. fst (os_connect os' port 2 w) = Inr ()) \<Longrightarrow>
      probe_localhost_open_port_returns_ok os' port e'"
proof -
  show new_monitor_starts_healthy by (simp add: new_monitor_starts_healthy_def health_new_def)
  show threshold_defaults by (simp add: threshold_defaults_def health_new_def)
  have c: "fst (connect_timeout os p s e) = fst (os_connect os p s (world e))" for os :: "'x os" and p s e
    by (simp add: connect_timeout_def env_simps)
  have two: "\<not> (2 :: u32) \<le> 1" by (simp add: word_le_nat_alt)
  show "probe_unreachable_port_returns_degraded_then_restart os e"
    if "\<forall>w. fst (os_connect os 1 2 w) = r"
  proof (cases r)
    case (Inr u)
    then show ?thesis using that c [of os 1 2 e]
      by (auto simp: probe_unreachable_port_returns_degraded_then_restart_def health_probe_def health_new_def
          Let_def split: prod.splits sum.splits)
  next
    case (Inl err)
    obtain k s where err: "err = IoError k s" by (cases err)
    have conn: "connect_timeout os 1 2 e = (Inl err, snd (connect_timeout os 1 2 e))" for e
      using that Inl c [of os 1 2 e] by (simp add: prod_eq_iff)
    obtain e1 e2 where "connect_timeout os 1 2 e = (Inl err, e1)" "connect_timeout os 1 2 e1 = (Inl err, e2)"
      using conn [of e] conn by blast
    then show ?thesis using two err
      by (cases k) (simp_all add: probe_unreachable_port_returns_degraded_then_restart_def health_probe_def
          health_new_def Let_def)
  qed
  show "probe_localhost_open_port_returns_ok os' port e'"
    if "\<forall>w. fst (os_connect os' port 2 w) = Inr ()"
    using that c [of os' port 2 e']
    by (auto simp: probe_localhost_open_port_returns_ok_def health_probe_def health_new_def Let_def
        split: prod.splits sum.splits)
qed

lemma log_tests_pass:
  assumes K: "file_kernel K"
  shows "F ''/nonexistent/path'' = None \<Longrightarrow> tail_nonexistent_file K F e"
    and "tail_empty_file K tmp i F e" and "tail_fewer_lines_than_requested K tmp i F e"
    and "tail_exact_lines K tmp i F e" and "tail_one_line K tmp i F e"
proof -
  have tail: "fst (tail_log (K (write_file p c F)) p n e) =
      str_join [nl] (drop (length (str_lines c) - n) (str_lines c))" if "utf8_valid c" for p c n
    using tail_log_content [OF file_kernel_read(2) [OF K _ that]] by (simp add: write_file_def)
  note eval = str_lines_def strip_eol_def strip_suffix_def utf8_valid_def
  show "tail_nonexistent_file K F e" if none: "F ''/nonexistent/path'' = None"
    using file_kernel_read(1) [OF K, of F "''/nonexistent/path''" e] none
    by (auto simp: tail_nonexistent_file_def tail_log_def split: prod.splits sum.splits)
  show "tail_empty_file K tmp i F e"
    by (simp add: tail_empty_file_def Let_def tail eval)
  show "tail_fewer_lines_than_requested K tmp i F e"
    by (simp add: tail_fewer_lines_than_requested_def Let_def tail eval)
  show "tail_exact_lines K tmp i F e"
    by (simp add: tail_exact_lines_def five_lines_def Let_def tail eval)
  show "tail_one_line K tmp i F e"
    by (simp add: tail_one_line_def five_lines_def Let_def tail eval)
qed

section \<open>Property\<close>

text \<open>
  C40. The model passes the repository's unit tests: all of them hold, on every kernel that
  shows the files a test wrote, wherever the temporary directory is and whatever else the file
  system holds (but nothing below \<open>/nonexistent\<close> and no left-over disk image), with every
  JSON library that reads the test documents, when connecting to port 1 always has the same
  outcome and the port a test listens on accepts.
\<close>

theorem unit_tests_pass:
  assumes "reads_samples sd enc" and "file_kernel K"
    and "\<And>n. F (path_join ''/nonexistent'' n) = None"
    and "F (path_join (path_join tmp (''teeproxyd_vm_test_'' @ dec i)) ''disk.img'') = None"
    and "\<And>w. fst (os_connect os 1 2 w) = r" and "\<And>w. fst (os_connect os port 2 w) = Inr ()"
  shows "(default_config_is_valid \<and> partial_json_uses_defaults_for_missing sd \<and>
      empty_json_gives_all_defaults sd \<and> malformed_json_returns_error sd \<and>
      wrong_type_field_fails_entire_parse sd \<and> all_fields_overridden sd) \<and>
    (validate_images_missing_dir K F e \<and> validate_images_missing_file K tmp i F e \<and>
      validate_images_too_small K tmp i F e \<and> validate_images_all_present K tmp i F e \<and>
      state_transitions os e') \<and>
    (new_monitor_starts_healthy \<and> threshold_defaults \<and>
      probe_unreachable_port_returns_degraded_then_restart os e' \<and>
      probe_localhost_open_port_returns_ok os port e') \<and>
    (tail_nonexistent_file K F e \<and> tail_empty_file K tmp i F e \<and>
      tail_fewer_lines_than_requested K tmp i F e \<and> tail_exact_lines K tmp i F e \<and>
      tail_one_line K tmp i F e)"
proof -
  have "path_join ''/nonexistent'' ''path'' = ''/nonexistent/path''" by (simp add: path_join_def)
  then have np: "F ''/nonexistent/path'' = None" using assms(3) [of "''path''"] by simp
  show ?thesis
    by (intro conjI allI np config_tests_pass [OF assms(1)] vm_tests_pass [OF assms(2)]
        health_tests_pass(1,2) health_tests_pass(3) [OF allI [OF assms(5)]]
        health_tests_pass(4) [OF allI [OF assms(6)]] log_tests_pass [OF assms(2)] assms(3,4))
qed

text \<open>A JSON library that knows the test documents, and a kernel that shows the files.\<close>

definition sample_serde :: "sample serde" where
  "sample_serde =
     \<lparr>sd_parse = (\<lambda>s. case map_of sample_docs s of
          Some (Some es) \<Rightarrow> Inr (DocMap es)
        | _ \<Rightarrow> Inl ''expected value''),
      sd_string = (\<lambda>v. case v of JText s \<Rightarrow> Inr s | _ \<Rightarrow> Inl ''expected a string''),
      sd_u16 = (\<lambda>v. case v of JNumber n \<Rightarrow> Inr (of_nat n) | _ \<Rightarrow> Inl ''expected u16''),
      sd_u32 = (\<lambda>v. case v of JNumber n \<Rightarrow> Inr (of_nat n) | _ \<Rightarrow> Inl ''expected u32''),
      sd_u64 = (\<lambda>v. case v of JNumber n \<Rightarrow> Inr (of_nat n) | _ \<Rightarrow> Inl ''expected u64''),
      sd_bool = (\<lambda>v. case v of JTruth b \<Rightarrow> Inr b | _ \<Rightarrow> Inl ''expected a boolean''),
      sd_duplicate = (\<lambda>k. ''duplicate field '' @ k)\<rparr>"

lemma sample_serde_reads: "reads_samples sample_serde (\<lambda>v. v)"
  by (simp add: reads_samples_def sample_serde_def sample_docs_def partial_json_def wrong_type_json_def
      full_json_def)

definition sim_files :: "files \<Rightarrow> sim os" where
  "sim_files F =
     sim_os\<lparr>os_exists := (\<lambda>p. answer (F p \<noteq> None) 0),
            os_metadata := (\<lambda>p. answer (case F p of
                 None \<Rightarrow> Inl (IoError OtherKind ''No such file or directory'')
               | Some c \<Rightarrow> Inr (of_nat (length c))) 0),
            os_read_file := (\<lambda>p. answer (case F p of
                 None \<Rightarrow> Inl (IoError OtherKind ''No such file or directory'')
               | Some c \<Rightarrow> Inr c) 0)\<rparr>"

lemma sim_files_kernel: "file_kernel sim_files"
  by (simp add: file_kernel_def sim_files_def answer_def split: option.split)

theorem unit_tests_pass_witness:
  "all_fields_overridden sample_serde \<and>
   validate_images_too_small sim_files ''/tmp'' 42 (\<lambda>_. None) (sim_env sim_world) \<and>
   probe_localhost_open_port_returns_ok
     (sim_os\<lparr>os_connect := (\<lambda>_ _. answer (Inr ()) 0)\<rparr>) 4711 (sim_env sim_world) \<and>
   tail_exact_lines sim_files ''/tmp'' 42 (\<lambda>_. None) (sim_env sim_world)"
proof -
  let ?os = "sim_os\<lparr>os_connect := (\<lambda>_ _. answer (Inr ()) 0)\<rparr>"
  have c: "fst (os_connect ?os p n w) = Inr ()" for p n w by (simp add: answer_def)
  show ?thesis
    using unit_tests_pass [OF sample_serde_reads sim_files_kernel refl refl c c,
      where tmp = "''/tmp''" and i = 42 and e = "sim_env sim_world" and e' = "sim_env sim_world" and port = 4711]
    by blast
qed

end
