(* ===== verification/Spec2Isabelle.thy ===== *)
theory Spec2Isabelle
  imports Prelude Os_Interface Sim_Os Process Config Supervisor Vm Ca Health Log_Collector Startup
    Ipc Daemon Daemon_Run Ownership Crash_Count Manager_Status Timing Turn_Bound Boot Unit_Tests
begin

text \<open>
  A verification of \<open>teeproxyd\<close>, the supervisor daemon of an Android device that boots a
  protected virtual machine (the VM, run by \<open>pvm-manage\<close>) and keeps a host process, the CA
  (\<open>secret_proxy_ca\<close>), running beside it. All source paths are below src/src.

  \<^bold>\<open>The program.\<close> \<open>main\<close> (main.rs) loads a configuration, opens a self-pipe for
  signals and a Unix control socket, and turns an event loop: poll; on a byte in the pipe
  reap dead children (and leave on SIGTERM); serve one client of the socket; advance the
  startup machine by one step; probe the CA's port when the health interval is over; reset
  crash counters of stable children. Two managers, \<open>VmManager\<close> (vm.rs) and
  \<open>CaManager\<close> (ca.rs), own one child process each; process.rs starts and kills them.

  \<^bold>\<open>The model.\<close> The kernel is a parameter, the record \<open>os\<close> of one function per call over
  an abstract world; the environment \<open>env\<close> holds the clock, the self-pipe, the world and a
  trace of timed events. Operations pass the environment explicitly. \<open>option\<close> results are
  \<open>None\<close> on a panic (and, for the two loops defined by \<open>partial_function\<close>, when they do
  not return). Rust integers are words of their width, so release-mode arithmetic wraps as in
  the program; instants are nanoseconds and adding a duration past the range panics.

  \<^item> \<open>Prelude\<close>: types, strings, UTF-8, paths, instants, decimal printing, shared lemmas.
  \<^item> \<open>Os_Interface\<close>: the calls, \<open>signal_handler\<close> and \<open>setup_signal_handler\<close> of main.rs,
    the trace, and the orders every operation moves along. A process left running is an
    \<open>EvSpawn\<close>, one run to its end (\<open>vsock-test\<close>, \<open>pkill\<close>) an \<open>EvRun\<close>.
  \<^item> \<open>Sim_Os\<close>: a concrete kernel with zombies and SIGCHLD on which the witnesses evaluate.
  \<^item> \<open>Process\<close> (process.rs): \<open>spawn_with_log\<close>, \<open>graceful_kill\<close>, \<open>is_alive\<close>,
    \<open>kill_tree\<close>, \<open>rotate_if_needed\<close>. The wait of \<open>graceful_kill\<close> is a total function
    whose measure is the time left; which signals follow from which probes, how long it takes
    at most, when it panics, and what it does on the daemon's own children. The projections
    \<open>sent_signals\<close>, \<open>spawned\<close>, \<open>commands\<close> (programs run to their end) and \<open>probes\<close> read
    the trace; \<open>quiet\<close> bounds the first three.
  \<^item> \<open>Config\<close> (config.rs): defaults, the derived deserializer over a parameter for
    \<open>serde_json\<close>, \<open>load_with_warnings\<close>; field-wise meaning, acceptance, round trip.
  \<^item> \<open>Supervisor\<close>: the contract of the two managers as the locale \<open>supervised\<close>;
    \<open>Vm\<close> (vm.rs) and \<open>Ca\<close> (ca.rs) define the managers and interpret it.
  \<^item> \<open>Health\<close> (health.rs): the monitor, its counters as interpretations of the locale
    \<open>strike_counter\<close>, and its refinement of a specification on histories of outcomes.
  \<^item> \<open>Log_Collector\<close> (log_collector.rs): \<open>tail_log\<close>.
  \<^item> \<open>Startup\<close> (startup.rs): \<open>advance_startup\<close>, the abstract machine \<open>phase_step\<close> and
    the refinement between them, deadlines and the order of the boot.
  \<^item> \<open>Ipc\<close> (ipc.rs): line framing, the commands, the answers, over a parameter for the JSON
    library; the client loop terminates because every line shortens the input.
  \<^item> \<open>Daemon\<close> (main.rs): deaths of children, reaping, the listener, the poll timeout, one
    turn of the loop (\<open>main_iter\<close>), the loop, initialisation and shutdown. Reaping ends: its
    measure is the number of children plus the restarts the CA has left.
  \<^item> \<open>Daemon_Run\<close>: runs of the daemon (\<open>turns\<close>) and the locales \<open>kept_fact\<close> and
    \<open>boot_fact\<close>, which lift a fact from the managers' operations to whole runs.
  \<^item> \<open>Ownership\<close> and \<open>Crash_Count\<close>: such facts. The daemon sends signals only to children of
    its own that it has not reaped, and runs no command but the vsock test, \<open>pkill -P\<close> on such
    a child and \<open>pkill -9 -f crosvm\<close>; the pid of a process no manager holds gets no signal
    again; after the boot the crash counter of a CA that is not ready is never reset.
  \<^item> \<open>Manager_Status\<close>: another such fact, from initialisation on: how the state, the process,
    the ready time and the crash counter of each manager belong together; and two gaps: a VM
    ready without a process, and a ready time that outlives the process it belongs to.
  \<^item> \<open>Timing\<close> and \<open>Turn_Bound\<close>: how long each operation takes when a call of the kernel
    takes at most \<open>T\<close> (\<open>prompt\<close>), in numbers of calls and configured times, and that it
    returns; together, every turn of the loop ends within \<open>turn_time\<close>.
  \<^item> \<open>Boot\<close>: on a kernel that answers with success (\<open>cooperative\<close>), SIGCHLD for the vsock
    test included, the boot completes in a number of turns given by the configuration; on any kernel a wait whose deadline is over
    ends within two turns.
  \<^item> \<open>Unit_Tests\<close>: the \<open>#[cfg(test)]\<close> modules of config.rs, vm.rs, health.rs and
    log_collector.rs, one executable definition per test; the model passes them.
  \<^item> This theory: the invariant of all reachable states, the refinement of the phases over
    whole runs, how soon a shutdown signal is seen, and the end of the program.

  \<^bold>\<open>Hypotheses.\<close> Most properties assume nothing of the kernel. Where one does, the
  assumption is a named definition that states documented behaviour: \<open>fs_view\<close> (\<open>exists\<close>
  and \<open>metadata\<close> agree), \<open>lingers\<close> (an unreaped child answers \<open>kill(pid, 0)\<close>),
  \<open>counts_children\<close> (a reported child is gone, a start adds at most one), \<open>prompt\<close> (calls
  take bounded time), \<open>cooperative\<close> (the calls of the boot succeed, no client comes, and no
  signal but SIGCHLD, at any time once \<open>vsock-test\<close> has run: the case the boot is made for,
  not a promise of the kernel), and for the unit tests \<open>file_kernel\<close> (written files are
  shown) and \<open>reads_samples\<close> (how \<open>serde_json\<close> reads the five test documents). No fuel is
  used.

  \<^bold>\<open>Not modelled.\<close> Log output (\<open>env_logger\<close> and the \<open>log\<close> macros), the response
  bytes of the HTTP probe (the code ignores them), the capacity of the self-pipe (the model
  never blocks or drops a byte), the inside of \<open>serde_json\<close> and of the kernel, and what the
  repository holds beside src/src: the init script, SELinux policy, build and deploy files.
\<close>

section \<open>Invariants of a run\<close>

lemma turns_inv:
  assumes "turns js cfg os t d e d' e'"
    and "vm_inv (d_vm d)" "ca_inv (d_ca d)" "health_inv (d_health d)"
  shows "vm_inv (d_vm d') \<and> ca_inv (d_ca d') \<and> health_inv (d_health d') \<and>
    rtranclp phase_step (d_phase d) (d_phase d')"
  using assms
proof (induction rule: turns.induct)
  case (turn d1 e1 d2 e2)
  then have 1: "vm_inv (d_vm d1)" "ca_inv (d_ca d1)" "health_inv (d_health d1)"
    "rtranclp phase_step (d_phase d) (d_phase d1)" by auto
  have "vm_inv (d_vm d2) \<and> ca_inv (d_ca d2)" using wf.iter_kept [OF turn.hyps(2)] 1 by blast
  moreover have "phase_step (d_phase d1) (d_phase d2)" using iter_phase [OF turn.hyps(2)] 1 by blast
  ultimately show ?case using iter_health [OF turn.hyps(2)] 1 by (simp add: rtranclp.rtrancl_into_rtrancl)
qed simp

lemma init_inv:
  assumes "main_init sd os e = Some (cfg, l, t, d, e')"
  shows "vm_inv (d_vm d)" "ca_inv (d_ca d)" "health_inv (d_health d)"
  using main_init_state [OF assms] vm_inv_ops(1) ca_inv_ops(1) health_inv_new by simp_all

text \<open>
  C2. In every state the daemon reaches, a manager that is idle or in error owns no process
  and the health counters are below their thresholds. So the test \<open>is_dead\<close> is false
  whenever it is asked, of either manager, and asks the kernel nothing: the restart branches
  at the top of \<open>advance_startup\<close> are never taken.
\<close>

theorem daemon_invariant:
  assumes "main_init sd os e0 = Some (cfg, l, t, d0, e1)" and "turns js cfg os t d0 e1 d e"
  shows "(vm_state (d_vm d) \<in> {Vm_Idle, Vm_Error} \<longrightarrow> vm_child_pid (d_vm d) = None) \<and>
    (ca_state (d_ca d) \<in> {Ca_Idle, Ca_Error} \<longrightarrow> ca_child_pid (d_ca d) = None) \<and>
    health_inv (d_health d) \<and>
    vm_is_dead os (d_vm d) e = (False, e) \<and> ca_is_dead os (d_ca d) e = (False, e)"
proof -
  have "vm_inv (d_vm d) \<and> ca_inv (d_ca d) \<and> health_inv (d_health d)"
    using turns_inv [OF assms(2) init_inv [OF assms(1)]] by blast
  then show ?thesis
    using vm_is_dead_never [of "d_vm d" os e] ca_is_dead_never [of "d_ca d" os e]
    by (auto simp: vm_inv_def ca_inv_def)
qed

theorem daemon_invariant_witness:
  "\<exists>cfg l t d0 e1 d e. main_init (sim_serde []) sim_os (sim_env sim_world) = Some (cfg, l, t, d0, e1) \<and>
     turns sim_json cfg sim_os t d0 e1 d e \<and> d_phase d \<noteq> d_phase d0 \<and>
     vm_is_dead sim_os (d_vm d) e = (False, e)"
proof -
  obtain cfg l t d0 e1 d e where
    i: "main_init (sim_serde []) sim_os (sim_env sim_world) = Some (cfg, l, t, d0, e1)" and
    t: "turns sim_json cfg sim_os t d0 e1 d e" "d_phase d \<noteq> d_phase d0"
    using sim_first_turn by blast
  have "vm_is_dead sim_os (d_vm d) e = (False, e)" using daemon_invariant [OF i t(1)] by blast
  with i t show ?thesis by blast
qed

lemma phase_steps_settled: "rtranclp phase_step p q \<Longrightarrow> settled p \<Longrightarrow> q = p"
  by (induction rule: rtranclp_induct) (auto elim!: settled.elims simp: phase_step_simps)

text \<open>
  C3. The daemon's phases refine the abstract startup machine: from its first phase, which
  the configuration chooses, to the phase of any later state there is a run of
  \<open>phase_step\<close>. In particular a settled phase is final, whatever clients and children do:
  without \<open>auto_start\<close> the daemon never boots, not even after \<open>start_all\<close>, and after
  \<open>Failed\<close> it never tries again.
\<close>

theorem daemon_phase_refines:
  assumes "main_init sd os e0 = Some (cfg, l, t, d0, e1)"
    and "turns js cfg os t d0 e1 d e" and "turns js cfg os t d e d' e'"
  shows "rtranclp phase_step (if auto_start cfg then VmStarting else NotStarted) (d_phase d) \<and>
    rtranclp phase_step (d_phase d) (d_phase d') \<and>
    (settled (d_phase d) \<longrightarrow> d_phase d' = d_phase d) \<and>
    (\<not> auto_start cfg \<longrightarrow> d_phase d = NotStarted)"
proof -
  have 1: "vm_inv (d_vm d) \<and> ca_inv (d_ca d) \<and> health_inv (d_health d) \<and>
      rtranclp phase_step (d_phase d0) (d_phase d)"
    by (rule turns_inv [OF assms(2) init_inv [OF assms(1)]])
  have 2: "rtranclp phase_step (d_phase d) (d_phase d')" using turns_inv [OF assms(3)] 1 by blast
  show ?thesis
    using 1 2 main_init_state(4) [OF assms(1)] phase_steps_settled [OF 2]
      phase_steps_settled [of NotStarted "d_phase d"] by auto
qed

theorem daemon_phase_refines_witness:
  "\<exists>cfg l t d0 e1 d e. main_init (sim_serde []) sim_os (sim_env sim_world) = Some (cfg, l, t, d0, e1) \<and>
     turns sim_json cfg sim_os t d0 e1 d e \<and> d_phase d \<noteq> d_phase d0 \<and>
     rtranclp phase_step VmStarting (d_phase d)"
proof -
  obtain cfg l t d0 e1 d e where
    i: "main_init (sim_serde []) sim_os (sim_env sim_world) = Some (cfg, l, t, d0, e1)" and
    t: "turns sim_json cfg sim_os t d0 e1 d e" "d_phase d \<noteq> d_phase d0"
    using sim_first_turn by blast
  have "auto_start cfg" using i unfolding sim_main_init by (auto simp: default_defs)
  then have "rtranclp phase_step VmStarting (d_phase d)"
    using daemon_phase_refines [OF i t(1) turns.here] by simp
  with i t show ?thesis by blast
qed

section \<open>Leaving the loop\<close>

text \<open>
  C6. A shutdown signal ends the loop. If the byte of SIGTERM or SIGINT is among the first 64
  of the self-pipe when a turn begins, \<open>poll\<close> does not fail and the kernel accounts for
  children, the loop returns in this very turn, before it serves a client or starts the boot
  on; dead children waiting in the same read are reaped first, and that ends too.
\<close>

theorem sigterm_ends_loop:
  assumes "CHR ''T'' \<in> set (take 64 (sigpipe e))"
    and p: "\<And>ms w. fst (os_poll os ms w) \<noteq> None"
    and k: "counts_children os r" "\<And>w. r (snd (snd (snd (os_tick os w)))) \<le> r w"
      "\<And>ms w. r (snd (snd (snd (os_poll os ms w)))) \<le> r w"
    and c: "unat (ca_crash_count (d_ca d)) + r (world e) + 5 < 2 ^ 32"
  shows "\<exists>d' e'. main_loop js cfg os t d e = Some (d', e') \<and>
    d_phase d' = d_phase d \<and> d_health d' = d_health d \<and> d_last_health d' = d_last_health d"
proof -
  obtain now e1 where n: "instant_now os e = (now, e1)" by fastforce
  let ?ms = "unat (poll_timeout (d_phase d) (health_interval cfg - elapsed now (d_last_health d)))"
  obtain ready e2 where q: "poll_fds os ?ms e1 = (ready, e2)" by fastforce
  have pre: "prefix (sigpipe e) (sigpipe e1)" "prefix (sigpipe e1) (sigpipe e2)"
    using call_op_le(18) [of e os] loop_call_env_le(1) [of e1 os ?ms] n q
    by (simp_all add: op_le_def env_le_def)
  have T: "CHR ''T'' \<in> set (take 64 (sigpipe e2))"
    using assms(1) pre by (auto elim!: prefixE)
  have "ready = fst (os_poll os ?ms (world e1))" using sys_facts(3) [OF q [unfolded poll_fds_def]] .
  then obtain b s where ready: "ready = Some (b, s)" using p by (metis not_None_eq prod.collapse)
  have "sigpipe e1 \<noteq> []" using assms(1) pre(1) by auto
  then have s: "sig_ready e1 ready e2" using ready by (simp add: sig_ready_def)
  let ?e3 = "snd (read_sigpipe 64 e2)"
  have "r (world e1) \<le> r (world e)"
    using n k(2) [of "world e"] by (auto simp: instant_now_def Let_def env_simps)
  moreover have "r (world e2) \<le> r (world e1)"
    using sys_facts(4) [OF q [unfolded poll_fds_def]] k(3) [of ?ms "world e1"] by simp
  ultimately have "unat (ca_crash_count (d_ca d)) + r (world ?e3) + (5 - unat (ca_crash_count (d_ca d))) < 2 ^ 32"
    using c by (simp add: read_sigpipe_def)
  then obtain x vm' ca' e' where
    "reap_loop cfg os False (d_vm d) (d_ca d) ?e3 = Some (x, vm', ca', e')"
    using reap_loop_returns [OF k(1), of "d_ca d" ?e3 cfg False "d_vm d"] by blast
  then have "\<exists>vm' ca' e'. check_signals cfg os (d_vm d) (d_ca d) e2 = Some (True, vm', ca', e')"
    using T by (auto simp: check_signals_def reap_children_def read_sigpipe_def)
  then obtain vm' ca' e' where
    "main_iter js cfg os t d e = Some (True, d\<lparr>d_vm := vm', d_ca := ca'\<rparr>, e')"
    using n q s by (auto simp: main_iter_def)
  then show ?thesis by (subst main_loop.simps) simp
qed

theorem sigterm_ends_loop_witness:
  "\<exists>d' e'. main_loop sim_json default_config sim_os 0
      \<lparr>d_vm = vm_new, d_ca = ca_new, d_health = health_new 19030 3, d_phase = Complete, d_last_health = 0\<rparr>
      ((sim_env sim_world)\<lparr>sigpipe := ''CT''\<rparr>) = Some (d', e') \<and> d_phase d' = Complete"
proof -
  let ?e = "(sim_env sim_world)\<lparr>sigpipe := ''CT''\<rparr>"
  let ?d = "\<lparr>d_vm = vm_new, d_ca = ca_new, d_health = health_new 19030 3, d_phase = Complete, d_last_health = 0\<rparr>"
  obtain d' e' where "main_loop sim_json default_config sim_os 0 ?d ?e = Some (d', e')"
    "d_phase d' = d_phase ?d"
    using sigterm_ends_loop [of ?e sim_os "\<lambda>w. length (s_procs w)" ?d sim_json default_config 0,
        OF _ _ sim_counts_children] that
    by (force simp: sim_os_def sim_poll_def answer_def sim_env_def sim_world_def ca_new_def)
  then show ?thesis by (intro exI [of _ d'] exI [of _ e']) simp
qed

text \<open>The self-pipe through a turn: one read of 64 bytes at most, and bytes are only added.\<close>

lemma turn_sigpipe:
  assumes "main_iter js cfg os t d e = Some (False, d', e')" "vm_inv (d_vm d)" "ca_inv (d_ca d)"
    and "sigpipe e \<noteq> []" and p: "\<And>ms w. fst (os_poll os ms w) \<noteq> None"
  shows "CHR ''T'' \<notin> set (take 64 (sigpipe e)) \<and> prefix (drop 64 (sigpipe e)) (sigpipe e')"
  using assms(1)
proof (cases rule: main_iter_cases)
  case (turn now e1 ready e2 vm1 ca1 e3 vm2 ca2 e4 ph vm3 ca3 e5 h ca4 last_health e6 vm4 e7 ca5)
  have 1: "prefix (sigpipe e) (sigpipe e1)" using call_op_le(18) [of e os] turn(1) by (simp add: op_le_def)
  have 2: "prefix (sigpipe e1) (sigpipe e2)"
    using loop_call_env_le(1) [of e1 os] turn(2) by (metis env_le_def snd_conv)
  have "ready \<noteq> None" using sys_facts(3) [OF turn(2) [unfolded poll_fds_def]] p by simp
  moreover have "sigpipe e1 \<noteq> []" using assms(4) 1 by auto
  ultimately have "sig_ready e1 ready e2" by (auto simp: sig_ready_def)
  then have c: "check_signals cfg os (d_vm d) (d_ca d) e2 = Some (False, vm1, ca1, e3)" using turn(3) by simp
  have T: "CHR ''T'' \<notin> set (take 64 (sigpipe e2))"
    using c by (auto simp: check_signals_def read_sigpipe_def bind_Some_iff)
  have 3: "prefix (drop 64 (sigpipe e2)) (sigpipe e3)"
    using c reap_env [of cfg os "d_vm d" "d_ca d" "snd (read_sigpipe 64 e2)"]
    by (auto simp: check_signals_def bind_Some_iff read_sigpipe_def env_le_def split: if_splits)
  have inv: "vm_inv vm1 \<and> ca_inv ca1" using wf.signals_kept [OF turn(1-3)] assms(2,3) by blast
  have "env_le e3 e4" using turn(4) serve_ipc_env by blast
  then have 4: "prefix (sigpipe e3) (sigpipe e4)" by (simp add: env_le_def)
  have "vm_inv vm2 \<and> ca_inv ca2" using turn(4) wf.serve_ipc_kept inv by blast
  then have 5: "prefix (sigpipe e4) (sigpipe e5)"
    using turn(5) startup_match_env by (fastforce simp: advance_startup_match op_le_def)
  have 6: "prefix (sigpipe e5) (sigpipe e6)" using health_check_env [OF turn(6)] by (simp add: op_le_def)
  have 7: "prefix (sigpipe e6) (sigpipe e7)" "prefix (sigpipe e7) (sigpipe e')"
    using vm_maybe_reset_env [of e6 os vm3] ca_maybe_reset_env [of e7 os ca4] turn(7,8)
    by (simp_all add: op_le_def)
  have "prefix (sigpipe e) (sigpipe e2)" using 1 2 by (rule prefix_order.trans)
  then have "prefix (drop 64 (sigpipe e)) (drop 64 (sigpipe e2))"
    and "CHR ''T'' \<notin> set (take 64 (sigpipe e))" using T by (auto elim!: prefixE simp: prefix_def)
  moreover have "prefix (drop 64 (sigpipe e2)) (sigpipe e')"
    using 3 4 5 6 7 by (meson prefix_order.trans)
  ultimately show ?thesis by (meson prefix_order.trans)
qed simp

text \<open>
  C7. No shutdown signal waits behind others for long. If the byte of SIGTERM or SIGINT is
  the \<open>i\<close>-th of the self-pipe, the managers satisfy their invariant (as in every reachable
  state) and \<open>poll\<close> does not fail, the loop makes at most
  \<open>i div 64\<close> further turns before the one that sees it, whatever signals, clients and
  children do meanwhile.
\<close>

theorem sigterm_seen_soon:
  assumes "run_turns js cfg os t n d e = Some (d', e')" and "vm_inv (d_vm d)" "ca_inv (d_ca d)"
    and "i < length (sigpipe e)" "sigpipe e ! i = CHR ''T''"
    and "\<And>ms w. fst (os_poll os ms w) \<noteq> None"
  shows "n \<le> i div 64"
  using assms
proof (induction n arbitrary: d e i)
  case (Suc n)
  then obtain d1 e1 where m: "main_iter js cfg os t d e = Some (False, d1, e1)"
    and r: "run_turns js cfg os t n d1 e1 = Some (d', e')"
    by (auto split: option.splits bool.splits)
  have "sigpipe e \<noteq> []" using Suc.prems(4) by auto
  from turn_sigpipe [OF m Suc.prems(2,3) this Suc.prems(6)]
  have T: "CHR ''T'' \<notin> set (take 64 (sigpipe e))" and pre: "prefix (drop 64 (sigpipe e)) (sigpipe e1)" by auto
  have i: "64 \<le> i"
  proof (rule ccontr)
    assume "\<not> 64 \<le> i"
    then have "take 64 (sigpipe e) ! i \<in> set (take 64 (sigpipe e))" using Suc.prems(4) by (intro nth_mem) simp
    then show False using T Suc.prems(5) \<open>\<not> 64 \<le> i\<close> by simp
  qed
  obtain zs where zs: "sigpipe e1 = drop 64 (sigpipe e) @ zs" using pre by (auto elim: prefixE)
  have "i - 64 < length (drop 64 (sigpipe e))" using i Suc.prems(4) by simp
  then have "i - 64 < length (sigpipe e1)" "sigpipe e1 ! (i - 64) = CHR ''T''"
    unfolding zs using i Suc.prems(5) by (simp_all add: nth_append)
  moreover have "vm_inv (d_vm d1) \<and> ca_inv (d_ca d1)" using wf.iter_kept [OF m] Suc.prems(2,3) by blast
  ultimately have "n \<le> (i - 64) div 64" using Suc.IH [OF r] Suc.prems(6) by blast
  then show ?case using i by (simp add: le_div_geq)
qed simp

theorem sigterm_seen_soon_witness:
  "\<exists>d' e'. run_turns sim_json default_config sim_os 0 1
      \<lparr>d_vm = vm_new, d_ca = ca_new, d_health = health_new 19030 3, d_phase = Complete, d_last_health = 0\<rparr>
      ((sim_env sim_world)\<lparr>sigpipe := replicate 64 (CHR ''C'') @ ''T''\<rparr>) = Some (d', e') \<and> 0 < clock e' \<and>
    run_turns sim_json default_config sim_os 0 2
      \<lparr>d_vm = vm_new, d_ca = ca_new, d_health = health_new 19030 3, d_phase = Complete, d_last_health = 0\<rparr>
      ((sim_env sim_world)\<lparr>sigpipe := replicate 64 (CHR ''C'') @ ''T''\<rparr>) = None"
proof -
  let ?e = "(sim_env sim_world)\<lparr>sigpipe := replicate 64 (CHR ''C'') @ ''T''\<rparr>"
  let ?d = "\<lparr>d_vm = vm_new, d_ca = ca_new, d_health = health_new 19030 3, d_phase = Complete, d_last_health = 0\<rparr>"
  have "\<exists>d' e'. main_iter sim_json default_config sim_os 0 ?d ?e = Some (False, d', e') \<and> 0 < clock e'"
    by (simp add: main_iter_def poll_timeout_def poll_timeout_ms_def health_interval_def sig_ready_def
        check_signals_def read_sigpipe_def reap_children_def reap_loop.simps advance_startup_def
        vm_is_dead_def ca_is_dead_def vm_new_def ca_new_def startup_match_def health_check_def
        vm_maybe_reset_crash_count_def ca_maybe_reset_crash_count_def sim_eval default_defs)
  then have 1: "\<exists>d' e'. run_turns sim_json default_config sim_os 0 1 ?d ?e = Some (d', e') \<and> 0 < clock e'"
    by auto
  have "run_turns sim_json default_config sim_os 0 2 ?d ?e = None"
  proof (rule ccontr)
    assume "run_turns sim_json default_config sim_os 0 2 ?d ?e \<noteq> None"
    then obtain d' e' where r: "run_turns sim_json default_config sim_os 0 2 ?d ?e = Some (d', e')" by auto
    have "2 \<le> (64 :: nat) div 64"
      by (rule sigterm_seen_soon [OF r, of 64])
        (simp_all add: vm_inv_ops(1) ca_inv_ops(1) nth_append sim_os_def sim_poll_def answer_def)
    then show False by simp
  qed
  with 1 show ?thesis by blast
qed

text \<open>
  C18. The program ends tidily. When \<open>main\<close> returns, both managers are idle and own no
  process, and the last things it did, from the end of the loop on, were to stop the CA and
  then the VM: the process the CA manager held, if any, is killed gracefully (SIGTERM, and
  SIGKILL if it is still seen after the grace period); then the process the VM manager held,
  if any, is killed in the same way, SIGKILL goes to it and, by \<open>pkill\<close>, to its children and
  to every \<open>crosvm\<close>. Nothing else is started, run, probed or signalled.
\<close>

theorem daemon_main_ends_tidily:
  assumes "daemon_main sd js os e = Some (d', e')"
  shows "vm_state (d_vm d') = Vm_Idle \<and> vm_child_pid (d_vm d') = None \<and>
    ca_state (d_ca d') = Ca_Idle \<and> ca_child_pid (d_ca d') = None \<and>
    (\<exists>cfg l t d0 e1 d e2 evs1 evs2. main_init sd os e = Some (cfg, l, t, d0, e1) \<and>
       main_loop js cfg os t d0 e1 = Some (d, e2) \<and> trace e' = trace e2 @ evs1 @ evs2 \<and>
       (case ca_child_pid (d_ca d) of
          None \<Rightarrow> evs1 = []
        | Some p \<Rightarrow> \<exists>r. killed_gracefully p (shutdown_grace_secs cfg) evs1 r) \<and>
       vm_stopped cfg (vm_child_pid (d_vm d)) evs2)"
proof -
  obtain cfg l t d0 e1 d e2 where i: "main_init sd os e = Some (cfg, l, t, d0, e1)"
    and m: "main_loop js cfg os t d0 e1 = Some (d, e2)" and s: "shutdown cfg os d e2 = Some (d', e')"
    using assms by (auto simp: daemon_main_def bind_Some_iff)
  obtain ca1 e3 vm1 where c: "ca_stop cfg os (d_ca d) e2 = Some (ca1, e3)"
    and v: "vm_stop cfg os (d_vm d) e3 = Some (vm1, e')" and d': "d' = d\<lparr>d_vm := vm1, d_ca := ca1\<rparr>"
    using s by (auto simp: shutdown_def bind_Some_iff)
  note stopped = stop_both [OF c v]
  then obtain evs1 evs2 where "trace e' = trace e2 @ evs1 @ evs2" "ca_stopped cfg (ca_child_pid (d_ca d)) evs1"
    "vm_stopped cfg (vm_child_pid (d_vm d)) evs2" by blast
  with i m have "\<exists>cfg l t d0 e1 d e2 evs1 evs2. main_init sd os e = Some (cfg, l, t, d0, e1) \<and>
       main_loop js cfg os t d0 e1 = Some (d, e2) \<and> trace e' = trace e2 @ evs1 @ evs2 \<and>
       ca_stopped cfg (ca_child_pid (d_ca d)) evs1 \<and> vm_stopped cfg (vm_child_pid (d_vm d)) evs2"
    by (intro exI conjI)
  then show ?thesis using stopped by (simp add: d' ca_stopped_def)
qed

theorem daemon_main_ends_tidily_witness:
  "\<exists>d' e'. daemon_main (sim_serde []) sim_json (sim_os\<lparr>os_pipe := (\<lambda>w. (Some 4, 0, [], w)),
      os_bind := (\<lambda>_ w. (True, 0, [SIGTERM], w))\<rparr>) (sim_env sim_world) = Some (d', e') \<and>
     ca_state (d_ca d') = Ca_Idle"
proof -
  let ?os = "sim_os\<lparr>os_pipe := (\<lambda>w. (Some 4, 0, [], w)), os_bind := (\<lambda>_ w. (True, 0, [SIGTERM], w))\<rparr>"
  have "daemon_main (sim_serde []) sim_json ?os (sim_env sim_world) \<noteq> None"
    by (simp add: daemon_main_def main_init_def load_with_warnings_def acquire_listener_def
        setup_signal_handler_def main_loop.simps main_iter_def poll_timeout_def poll_timeout_ms_def
        health_interval_def sig_ready_def check_signals_def read_sigpipe_def shutdown_def
        ca_stop_def vm_stop_def ca_new_def vm_new_def sim_eval default_defs)
  then obtain d' e' where m: "daemon_main (sim_serde []) sim_json ?os (sim_env sim_world) = Some (d', e')"
    by (metis not_None_eq prod.collapse)
  then show ?thesis using daemon_main_ends_tidily [OF m] by blast
qed

end
